(* ===== verification/Prelude.thy ===== *)
theory Prelude
  imports Main "HOL-Library.Word" "HOL-Library.AList"
begin

text \<open>
  Shared vocabulary of the development of \<^verbatim>\<open>src/predict.py\<close>: the types that
  name the model's data (bytes, file names, paths, class indices), the error
  type that every fatal path of the script returns, and the generic lemmas on
  lists, association lists and Python's integer division that the component
  theories share.  The collection \<open>model_simps\<close> gathers the evaluation rules
  of the components so that witnesses compute by \<open>simp add: model_simps\<close>.
\<close>

named_theorems model_simps "rules that evaluate the model on concrete inputs"

section \<open>Types of the model\<close>

type_synonym byte = "8 word"
type_synonym bytes = "byte list"
type_synonym fname = string
type_synonym path = string
type_synonym class_idx = nat

text \<open>
  A fatal error of the script: every exception it lets escape.  The pipeline
  has no handler, so each of them aborts \<open>main\<close>.
\<close>

datatype error =
    NotFoundError                 \<comment> \<open>\<open>tf.gfile.ListDirectory\<close> / \<open>os.listdir\<close> on a missing directory\<close>
  | IsADirectoryError path        \<comment> \<open>\<open>imghdr.what\<close> opens a sub-directory\<close>
  | ZeroDivisionError             \<comment> \<open>\<open>len(img_paths) / FLAGS.batch_size\<close> with batch size 0\<close>
  | InvalidBatchSize              \<comment> \<open>the dataset's \<open>batch\<close> with a size below 1\<close>
  | DecodeError path              \<comment> \<open>\<open>_parse_function_test\<close> fails on a validated file\<close>
  | TopKError                     \<comment> \<open>\<open>tf.nn.top_k\<close> with fewer than \<open>k\<close> classes\<close>
  | EmptyReductionError           \<comment> \<open>\<open>tf.argmax\<close> along an axis of length 0\<close>
  | UnicodeEncodeError            \<comment> \<open>\<open>str.encode('utf-8')\<close> of a surrogate code point\<close>
  | UnicodeDecodeError            \<comment> \<open>\<open>bytes.decode('utf-8')\<close> of ill-formed UTF-8\<close>
  | CheckpointError               \<comment> \<open>\<open>saver.restore\<close> with no checkpoint found\<close>
  | OutOfRangeError               \<comment> \<open>\<open>get_next\<close> on an exhausted iterator\<close>
  | FileNotFoundError path        \<comment> \<open>\<open>os.listdir('submissions/')\<close> on a missing directory\<close>

type_synonym 'a result = "error + 'a"

section \<open>Python's integer arithmetic\<close>

text \<open>
  \<open>math.ceil(n / b)\<close> for Python integers, with the \<open>ZeroDivisionError\<close> of
  true division.  Isabelle's \<open>div\<close> on \<open>int\<close> rounds towards minus infinity
  as Python's \<open>//\<close> does, so the ceiling is \<open>- ((- n) div b)\<close> for every
  sign of \<open>b\<close>.
\<close>

definition py_ceil_div :: "int \<Rightarrow> int \<Rightarrow> int result" where
  "py_ceil_div n b = (if b = 0 then Inl ZeroDivisionError else Inr (- ((- n) div b)))"

lemma py_ceil_div_pos:
  assumes "b \<noteq> 0"
  shows "py_ceil_div n b = Inr (if n mod b = 0 then n div b else n div b + 1)"
  using assms by (simp add: py_ceil_div_def zdiv_zminus1_eq_if)

text \<open>The ceiling \<open>(n + b - 1) div b\<close> on \<open>nat\<close>, one step at a time.\<close>

lemma ceil_div_le:
  fixes b n :: nat
  assumes "0 < b" "0 < n" "n \<le> b"
  shows "(n + b - 1) div b = 1"
proof -
  have eq1: "n + b - 1 = (n - 1) + b" using assms by arith
  have "n - 1 < b" using assms by arith
  then have z: "(n - 1) div b = 0" by (rule div_less)
  have "(n + b - 1) div b = ((n - 1) + b) div b" by (simp only: eq1)
  also have "\<dots> = (n - 1) div b + 1" using assms(1) by (simp only: div_add_self2 neq0_conv)
  also have "\<dots> = 1" using z by simp
  finally show ?thesis .
qed

lemma ceil_div_gt:
  fixes b n :: nat
  assumes "0 < b" "b < n"
  shows "(n + b - 1) div b = Suc ((n - b + b - 1) div b)"
proof -
  have eq1: "n + b - 1 = (n - b + b - 1) + b" using assms by arith
  have "(n + b - 1) div b = ((n - b + b - 1) + b) div b" by (simp only: eq1)
  also have "\<dots> = (n - b + b - 1) div b + 1" using assms(1) by (simp only: div_add_self2 neq0_conv)
  finally show ?thesis by simp
qed

lemma ceil_div_nat:
  fixes b n :: nat
  assumes b: "0 < b"
  shows "(n + b - 1) div b = (if n mod b = 0 then n div b else Suc (n div b))"
proof -
  define q r where "q = n div b" and "r = n mod b"
  have n: "n = r + q * b" by (simp add: q_def r_def)
  have r: "r < b" using b by (simp add: r_def)
  show ?thesis
  proof (cases "r = 0")
    case True
    have eq: "n + b - 1 = (b - 1) + q * b" using n True b by simp
    have b0: "b \<noteq> 0" using b by simp
    have "(n + b - 1) div b = ((b - 1) + q * b) div b" by (simp only: eq)
    also have "\<dots> = q + (b - 1) div b" by (simp only: div_mult_self1 [OF b0])
    also have "(b - 1) div b = 0" using b by (simp add: div_less)
    finally show ?thesis using True by (simp add: q_def r_def)
  next
    case False
    have eq: "n + b - 1 = (r - 1) + Suc q * b" using n False by simp
    have b0: "b \<noteq> 0" using b by simp
    have "(n + b - 1) div b = ((r - 1) + Suc q * b) div b" by (simp only: eq)
    also have "\<dots> = Suc q + (r - 1) div b" by (simp only: div_mult_self1 [OF b0])
    also have "(r - 1) div b = 0" using r by (simp add: div_less)
    finally show ?thesis using False by (simp add: q_def r_def)
  qed
qed
lemma py_ceil_div_nat:
  assumes "0 < b"
  shows "py_ceil_div (int n) (int b) = Inr (int ((n + b - 1) div b))"
proof -
  have "int ((n + b - 1) div b) = int (if n mod b = 0 then n div b else Suc (n div b))"
    by (simp only: ceil_div_nat [OF assms])
  also have "\<dots> = (if int n mod int b = 0 then int n div int b else int n div int b + 1)"
    using assms zdiv_int by auto
  finally have eq: "int ((n + b - 1) div b) =
      (if int n mod int b = 0 then int n div int b else int n div int b + 1)" .
  show ?thesis using assms by (simp only: eq py_ceil_div_pos)
qed

section \<open>Lists\<close>

lemma concat_map_singleton_list [simp]: "concat (map (\<lambda>x. [x]) xs) = xs"
  by (induction xs) auto

lemma concat_map_concat_map: "concat (map (concat \<circ> map f) xss) = concat (map f (concat xss))"
  by (induction xss) simp_all

lemma takeWhile_not_in [simp]: "c \<notin> set xs \<Longrightarrow> takeWhile (\<lambda>x. x \<noteq> c) xs = xs"
  by (induction xs) auto

lemma filter_partition_length [simp]:
  "length (filter P xs) + length (filter (\<lambda>x. \<not> P x) xs) = length xs"
  by (induction xs) auto

section \<open>Association lists\<close>

text \<open>
  A directory listing is an association list from names to contents with
  distinct names; \<open>AList.update\<close> is \<open>open(name, 'w')\<close>: it replaces the
  content of an existing name and appends a new one.
\<close>

lemma length_update_new [simp]:
  "k \<notin> fst ` set al \<Longrightarrow> length (AList.update k v al) = Suc (length al)"
  by (induction al) auto

lemma length_update_old:
  "k \<in> fst ` set al \<Longrightarrow> length (AList.update k v al) = length al"
  by (induction al) auto

lemma map_of_update_same [simp]: "map_of (AList.update k v al) k = Some v"
  by (simp add: update_conv')

lemma map_entry_update [simp]: "AList.map_entry k f (AList.update k v al) = AList.update k (f v) al"
  by (induction al) auto

end
