(* ===== verification/Validator.thy ===== *)
theory Validator
  imports Prelude "HOL-Library.Sublist"
begin

text \<open>
  The File Validator of \<^verbatim>\<open>src/predict.py\<close>: \<open>is_valid\<close> (lines 35--40),
  \<open>list_files\<close> (lines 43--54), and the parts of the libraries they call that
  decide the outcome: the JPEG, PNG and GIF header tests of Python's
  \<open>imghdr.what\<close>, \<open>os.path.getsize\<close>, \<open>os.path.join\<close> and
  \<open>str.split('.')[0]\<close>.  The input directory is an association list from
  entry names to entries in \<open>tf.gfile.ListDirectory\<close> order.
\<close>

section \<open>Directory entries\<close>

text \<open>
  An entry is a regular file with its bytes, or a sub-directory with the size
  \<open>os.stat\<close> reports for it (\<open>ListDirectory\<close> lists both; the code does
  not tell them apart).
\<close>

datatype entry = RegFile bytes | SubDir nat

type_synonym directory = "(fname \<times> entry) list"

text \<open>The file system: the directories that exist, by path.\<close>

type_synonym filesystem = "path \<rightharpoonup> directory"

primrec getsize :: "entry \<Rightarrow> nat" where
  "getsize (RegFile bs) = length bs"
| "getsize (SubDir n) = n"

section \<open>imghdr.what\<close>

text \<open>
  \<open>imghdr.what(path)\<close> reads the first 32 bytes \<open>h\<close> and runs its tests in
  order; the first three are \<open>test_jpeg\<close> (\<open>h[6:10]\<close> is \<open>JFIF\<close> or
  \<open>Exif\<close>), \<open>test_png\<close> (\<open>h\<close> starts with the PNG signature) and
  \<open>test_gif\<close> (\<open>h[:6]\<close> is \<open>GIF87a\<close> or \<open>GIF89a\<close>).  Every later test
  names a format outside \<open>['jpeg', 'png', 'gif']\<close>, so it is \<open>None\<close> here.
\<close>

datatype img_kind = Jpeg | Png | Gif

definition jfif_tag :: bytes where "jfif_tag = [74, 70, 73, 70]"
definition exif_tag :: bytes where "exif_tag = [69, 120, 105, 102]"
definition png_magic :: bytes where "png_magic = [137, 80, 78, 71, 13, 10, 26, 10]"
definition gif87_magic :: bytes where "gif87_magic = [71, 73, 70, 56, 55, 97]"
definition gif89_magic :: bytes where "gif89_magic = [71, 73, 70, 56, 57, 97]"

definition test_jpeg :: "bytes \<Rightarrow> bool" where
  "test_jpeg h \<longleftrightarrow> take 4 (drop 6 h) \<in> {jfif_tag, exif_tag}"

definition test_png :: "bytes \<Rightarrow> bool" where
  "test_png h \<longleftrightarrow> take 8 h = png_magic"

definition test_gif :: "bytes \<Rightarrow> bool" where
  "test_gif h \<longleftrightarrow> take 6 h \<in> {gif87_magic, gif89_magic}"

definition imghdr_what :: "bytes \<Rightarrow> img_kind option" where
  "imghdr_what content =
     (let h = take 32 content in
      if test_jpeg h then Some Jpeg
      else if test_png h then Some Png
      else if test_gif h then Some Gif
      else None)"

section \<open>is_valid\<close>

text \<open>
  \<open>is_valid\<close>: a zero-size entry is invalid before anything is opened; otherwise
  \<open>imghdr.what\<close> opens the entry, which raises for a directory.
\<close>

definition is_valid :: "path \<Rightarrow> entry \<Rightarrow> bool result" where
  "is_valid img_path e =
     (if getsize e = 0 then Inr False
      else case e of
        SubDir _ \<Rightarrow> Inl (IsADirectoryError img_path)
      | RegFile bs \<Rightarrow> Inr (imghdr_what bs \<in> {Some Jpeg, Some Png, Some Gif}))"

section \<open>list_files\<close>

text \<open>\<open>os.path.join(a, b)\<close> for POSIX paths.\<close>

definition path_join :: "path \<Rightarrow> fname \<Rightarrow> path" where
  "path_join a b =
     (if b \<noteq> [] \<and> hd b = CHR ''/'' then b
      else if a = [] \<or> last a = CHR ''/'' then a @ b
      else a @ ''/'' @ b)"

text \<open>\<open>str(fn).split('.')[0]\<close>: everything before the first dot.\<close>

definition fn_stem :: "fname \<Rightarrow> string" where
  "fn_stem fn = takeWhile (\<lambda>c. c \<noteq> CHR ''.'') fn"

text \<open>
  The loop body of \<open>list_files\<close> over the listing, with the three lists
  \<open>img_paths\<close>, \<open>fns\<close>, \<open>corrupted_fns\<close> as accumulator; an exception of
  \<open>is_valid\<close> ends the loop.
\<close>

type_synonym listing = "path list \<times> string list \<times> string list"

fun list_files_loop :: "path \<Rightarrow> directory \<Rightarrow> listing \<Rightarrow> listing result" where
  "list_files_loop d [] acc = Inr acc"
| "list_files_loop d ((fn, e) # es) (img_paths, fns, corrupted_fns) =
     (let img_path = path_join d fn in
      case is_valid img_path e of
        Inl err \<Rightarrow> Inl err
      | Inr True \<Rightarrow> list_files_loop d es (img_paths @ [img_path], fns @ [fn_stem fn], corrupted_fns)
      | Inr False \<Rightarrow> list_files_loop d es (img_paths, fns, corrupted_fns @ [fn_stem fn]))"

definition list_files :: "filesystem \<Rightarrow> path \<Rightarrow> listing result" where
  "list_files fs data_dir =
     (case fs data_dir of
        None \<Rightarrow> Inl NotFoundError
      | Some entries \<Rightarrow> list_files_loop data_dir entries ([], [], []))"

section \<open>Abstract view of the validator\<close>

text \<open>
  Whether an entry is usable, and whether inspecting it raises, as two total
  predicates, and the contract of \<open>list_files\<close> on a listing: the first entry
  whose inspection raises aborts the scan; otherwise the usable entries, in
  listing order, give the paths and ids, and the others the corrupted ids, in
  listing order.
\<close>

definition usable :: "entry \<Rightarrow> bool" where
  "usable e \<longleftrightarrow> (case e of RegFile bs \<Rightarrow> bs \<noteq> [] \<and> imghdr_what bs \<noteq> None | SubDir _ \<Rightarrow> False)"

definition raises :: "entry \<Rightarrow> bool" where
  "raises e \<longleftrightarrow> (case e of RegFile _ \<Rightarrow> False | SubDir n \<Rightarrow> n \<noteq> 0)"

definition partition_spec :: "path \<Rightarrow> directory \<Rightarrow> listing result" where
  "partition_spec d es =
     (case find (raises \<circ> snd) es of
        Some (fn, _) \<Rightarrow> Inl (IsADirectoryError (path_join d fn))
      | None \<Rightarrow> Inr (map (path_join d \<circ> fst) (filter (usable \<circ> snd) es),
                    map (fn_stem \<circ> fst) (filter (usable \<circ> snd) es),
                    map (fn_stem \<circ> fst) (filter (Not \<circ> usable \<circ> snd) es)))"

text \<open>
  The scenario of the specification: \<open>a.jpg\<close> a JPEG with a JFIF header,
  \<open>b.jpg\<close> a text file, \<open>c.png\<close> empty.
\<close>

definition demo_dir :: directory where
  "demo_dir = [(''a.jpg'', RegFile ([255, 216, 255, 224, 0, 16] @ jfif_tag @ [0, 1])),
               (''b.jpg'', RegFile [104, 101, 108, 108, 111]),
               (''c.png'', RegFile [])]"

section \<open>Lemmas\<close>

lemmas magic_defs [model_simps] = jfif_tag_def exif_tag_def png_magic_def gif87_magic_def gif89_magic_def
lemmas imghdr_defs [model_simps] = imghdr_what_def test_jpeg_def test_png_def test_gif_def
lemmas validator_defs [model_simps] = is_valid_def path_join_def fn_stem_def list_files_def
lemmas validator_spec_defs [model_simps] = usable_def raises_def partition_spec_def

lemma imghdr_what_cases:
  "(imghdr_what bs = Some Jpeg \<or> imghdr_what bs = Some Png \<or> imghdr_what bs = Some Gif) \<longleftrightarrow>
   imghdr_what bs \<noteq> None"
proof (cases "imghdr_what bs")
  case (Some k)
  then show ?thesis by (cases k) auto
qed simp

lemma is_valid_eq:
  "is_valid p e = (if raises e then Inl (IsADirectoryError p) else Inr (usable e))"
  by (cases e) (auto simp: is_valid_def usable_def raises_def imghdr_what_cases)

lemma list_files_loop_eq:
  "list_files_loop d es (ps, ids, cs) =
     (case partition_spec d es of
        Inl err \<Rightarrow> Inl err
      | Inr (ps', ids', cs') \<Rightarrow> Inr (ps @ ps', ids @ ids', cs @ cs'))"
proof (induction es arbitrary: ps ids cs)
  case Nil
  then show ?case by (simp add: partition_spec_def)
next
  case (Cons x es)
  obtain fn e where x: "x = (fn, e)" by fastforce
  show ?case
  proof (cases "raises e")
    case True
    then show ?thesis by (simp add: x is_valid_eq partition_spec_def)
  next
    case False
    then show ?thesis
      by (simp add: x is_valid_eq Cons.IH partition_spec_def split: option.splits)
  qed
qed

lemma list_files_Inr:
  assumes "fs d = Some es" and "list_files fs d = Inr (ps, ids, cs)"
  shows "find (raises \<circ> snd) es = None"
    and "ps = map (path_join d \<circ> fst) (filter (usable \<circ> snd) es)"
    and "ids = map (fn_stem \<circ> fst) (filter (usable \<circ> snd) es)"
    and "cs = map (fn_stem \<circ> fst) (filter (Not \<circ> usable \<circ> snd) es)"
  using assms
  by (auto simp: list_files_def list_files_loop_eq partition_spec_def split: option.splits)

text \<open>C4: \<open>list_files\<close> implements the partition contract: a missing data directory
  is \<open>NotFoundError\<close>; otherwise the result is exactly \<open>partition_spec\<close> of the
  listing (usable entries in order, corrupted ids in order, or the error of the
  first entry that cannot be opened).\<close>

theorem list_files_refines:
  "list_files fs d = (case fs d of None \<Rightarrow> Inl NotFoundError | Some es \<Rightarrow> partition_spec d es)"
  by (simp add: list_files_def list_files_loop_eq split: option.splits sum.splits)

text \<open>C5: after a successful scan every directory entry is counted in exactly one of
  the two partitions, there is one path per usable id, and both id lists are
  order-preserving subsequences of the listing.\<close>

theorem list_files_partition:
  assumes "fs d = Some es" and "list_files fs d = Inr (ps, ids, cs)"
  shows "length ids + length cs = length es \<and> length ps = length ids \<and>
         subseq ids (map (fn_stem \<circ> fst) es) \<and> subseq cs (map (fn_stem \<circ> fst) es)"
proof -
  note eqs = list_files_Inr [OF assms]
  have "length ids + length cs = length es"
    using eqs(3,4) filter_partition_length [of "usable \<circ> snd" es] by (simp add: comp_def)
  moreover have "subseq ids (map (fn_stem \<circ> fst) es)" and "subseq cs (map (fn_stem \<circ> fst) es)"
    using eqs(3,4) by (auto intro: subseq_map)
  ultimately show ?thesis using eqs(2,3) by simp
qed

theorem list_files_partition_witness:
  "list_files [''data'' \<mapsto> demo_dir] ''data'' = Inr ([''data/a.jpg''], [''a''], [''b'', ''c'']) \<and>
   length [''a''] + length [''b'', ''c''] = length demo_dir"
proof -
  have run: "list_files [''data'' \<mapsto> demo_dir] ''data'' = Inr ([''data/a.jpg''], [''a''], [''b'', ''c''])"
    by (simp add: model_simps demo_dir_def)
  have "length [''a''] + length [''b'', ''c''] = length demo_dir"
    using list_files_partition [OF _ run, of demo_dir] by simp
  with run show ?thesis by simp
qed

text \<open>C18: an entry that is a regular file with no bytes, or whose header matches none
  of the JPEG, PNG and GIF tests, is reported corrupted, whatever its name or
  extension.\<close>

theorem unusable_file_corrupted:
  assumes "fs d = Some es" and "(fn, RegFile bs) \<in> set es"
    and "bs = [] \<or> imghdr_what bs = None"
    and "list_files fs d = Inr (ps, ids, cs)"
  shows "fn_stem fn \<in> set cs"
proof -
  have "\<not> usable (RegFile bs)" using assms(3) by (auto simp: usable_def)
  then have "(fn, RegFile bs) \<in> set (filter (Not \<circ> usable \<circ> snd) es)" using assms(2) by simp
  then show ?thesis using list_files_Inr(4) [OF assms(1,4)] by force
qed

theorem unusable_file_corrupted_witness:
  "(''b.jpg'', RegFile [104, 101, 108, 108, 111]) \<in> set demo_dir \<and> imghdr_what [104, 101, 108, 108, 111] = None \<and>
   fn_stem ''b.jpg'' \<in> set (snd (snd (projr (list_files [''data'' \<mapsto> demo_dir] ''data''))))"
proof -
  have run: "list_files [''data'' \<mapsto> demo_dir] ''data'' = Inr ([''data/a.jpg''], [''a''], [''b'', ''c''])"
    by (simp add: model_simps demo_dir_def)
  have mem: "(''b.jpg'', RegFile [104, 101, 108, 108, 111]) \<in> set demo_dir"
    by (simp add: demo_dir_def)
  have hdr: "[104, 101, 108, 108, 111] = [] \<or> imghdr_what [104, 101, 108, 108, 111] = None"
    by (simp add: model_simps)
  have "imghdr_what [104, 101, 108, 108, 111] = None" by (simp add: model_simps)
  then show ?thesis using unusable_file_corrupted [OF _ mem hdr run] mem run by simp
qed

text \<open>C19: the JPEG test looks only at bytes 6 to 9: any non-empty file whose bytes
  6 to 9 read \<open>JFIF\<close> passes validation, whatever its first six bytes (the JPEG
  start-of-image marker \<open>FF D8\<close> is never checked).\<close>

theorem jfif_tag_suffices:
  assumes "length pre = 6"
  shows "is_valid p (RegFile (pre @ jfif_tag @ rest)) = Inr True"
  using assms by (simp add: is_valid_def imghdr_defs magic_defs)

theorem jfif_tag_suffices_witness:
  "is_valid ''data/notes.jpg'' (RegFile (replicate 6 0 @ jfif_tag @ [10])) = Inr True"
  using jfif_tag_suffices [of "replicate 6 0"] by simp

text \<open>C20: the id of an entry is the part of its name before the \<^emph>\<open>first\<close> dot, not the
  name without its extension.\<close>

theorem fn_stem_first_dot:
  assumes "CHR ''.'' \<notin> set a"
  shows "fn_stem (a @ CHR ''.'' # b) = a"
  using assms by (induction a) (auto simp: fn_stem_def)

theorem fn_stem_first_dot_witness: "fn_stem ''img.v2.jpg'' = ''img''"
  using fn_stem_first_dot [of "''img''" "''v2.jpg''"] by simp

text \<open>C21: a sub-directory of the data directory with a non-zero size aborts the whole
  scan: \<open>list_files\<close> returns no partition at all.\<close>

theorem subdir_aborts_scan:
  assumes "fs d = Some es" and "(fn, SubDir n) \<in> set es" and "0 < n"
  shows "\<exists>p. list_files fs d = Inl (IsADirectoryError p)"
proof -
  have "(raises \<circ> snd) (fn, SubDir n)" using assms(3) by (simp add: raises_def)
  then have "find (raises \<circ> snd) es \<noteq> None"
    using assms(2) by (metis find_None_iff)
  then show ?thesis
    using assms(1) by (auto simp: list_files_refines partition_spec_def split: option.splits)
qed

theorem subdir_aborts_scan_witness:
  "\<exists>p. list_files [''data'' \<mapsto> [(''a.jpg'', RegFile [1]), (''sub'', SubDir 4096)]] ''data'' =
         Inl (IsADirectoryError p)"
  using subdir_aborts_scan [of "[''data'' \<mapsto> [(''a.jpg'', RegFile [1]), (''sub'', SubDir 4096)]]"
      "''data''" _ "''sub''" 4096] by simp

end
