(* ===== verification/Batching.thy ===== *)
theory Batching
  imports Prelude
begin

text \<open>
  The Batch Loader of \<^verbatim>\<open>src/predict.py\<close>, \<open>init_data_generator\<close> (lines
  57--73) and its use in \<open>main\<close> (lines 109--113): the number of batches
  \<open>int(np.ceil(len(img_paths) / FLAGS.batch_size))\<close>, the dataset
  \<open>from_tensor_slices((img_paths, fns)).map(_parse_function_test).batch(B)\<close>,
  the re-initialisable iterator, and one \<open>sess.run(get_next)\<close>.  The decoder
  \<open>_parse_function_test\<close> (in \<^verbatim>\<open>data_generator.py\<close>, outside \<^verbatim>\<open>src/\<close>) is
  a parameter \<open>decode :: path \<Rightarrow> 'img option\<close>, \<open>None\<close> when it fails.  The
  parallel map and the prefetch buffer do not change what the iterator yields;
  theory \<open>Prefetch\<close> proves that for every interleaving.
\<close>

section \<open>Definitions\<close>

text \<open>
  \<open>Dataset.batch(B)\<close> on a finite dataset: consecutive groups of \<open>B\<close>
  elements, the last one shorter when \<open>B\<close> does not divide the length.  The
  model takes \<open>B\<close> as a \<open>nat\<close>; the iterator rejects a size below 1 before
  any batch is formed.
\<close>

fun batch_list :: "nat \<Rightarrow> 'a list \<Rightarrow> 'a list list" where
  "batch_list b xs = (if b = 0 \<or> xs = [] then [] else take b xs # batch_list b (drop b xs))"

declare batch_list.simps [simp del]

text \<open>Line 59: the number of loop iterations.\<close>

definition num_batches :: "int \<Rightarrow> 'a list \<Rightarrow> int result" where
  "num_batches batch_size img_paths = py_ceil_div (int (length img_paths)) batch_size"

text \<open>
  Lines 61--66: the dataset, described by its elements and its batch size.
  Building it runs nothing; \<open>sess.run(init_data)\<close> (line 109) creates the
  batching op, which refuses a batch size below 1.
\<close>

record dataset =
  ds_elems :: "(path \<times> string) list"
  ds_batch_size :: int

definition init_data_generator :: "int \<Rightarrow> path list \<Rightarrow> string list \<Rightarrow> (dataset \<times> int) result" where
  "init_data_generator batch_size img_paths fns =
     (case num_batches batch_size img_paths of
        Inl e \<Rightarrow> Inl e
      | Inr nb \<Rightarrow> Inr (\<lparr>ds_elems = zip img_paths fns, ds_batch_size = batch_size\<rparr>, nb))"

text \<open>The iterator's state: the batches it has still to deliver, not yet decoded.\<close>

type_synonym iterator = "(path \<times> string) list list"

definition init_iterator :: "dataset \<Rightarrow> iterator result" where
  "init_iterator ds =
     (if ds_batch_size ds < 1 then Inl InvalidBatchSize
      else Inr (batch_list (nat (ds_batch_size ds)) (ds_elems ds)))"

text \<open>\<open>dataset.map(_parse_function_test)\<close> on one batch: the first element whose
  decode fails raises.\<close>

fun decode_batch :: "(path \<Rightarrow> 'img option) \<Rightarrow> (path \<times> string) list \<Rightarrow> ('img list \<times> string list) result" where
  "decode_batch decode [] = Inr ([], [])"
| "decode_batch decode ((p, fn) # rest) =
     (case decode p of
        None \<Rightarrow> Inl (DecodeError p)
      | Some img \<Rightarrow>
          (case decode_batch decode rest of
             Inl e \<Rightarrow> Inl e
           | Inr (imgs, fns) \<Rightarrow> Inr (img # imgs, fn # fns)))"

text \<open>\<open>sess.run(get_next)\<close>: the next batch, decoded, or \<open>OutOfRangeError\<close>.\<close>

definition get_next :: "(path \<Rightarrow> 'img option) \<Rightarrow> iterator \<Rightarrow> (('img list \<times> string list) \<times> iterator) result" where
  "get_next decode it =
     (case it of
        [] \<Rightarrow> Inl OutOfRangeError
      | b # rest \<Rightarrow>
          (case decode_batch decode b of
             Inl e \<Rightarrow> Inl e
           | Inr batch \<Rightarrow> Inr (batch, rest)))"

section \<open>Lemmas\<close>

lemmas batching_defs [model_simps] =
  batch_list.simps num_batches_def init_data_generator_def init_iterator_def get_next_def

lemma batch_list_Nil [simp]: "batch_list b [] = []"
  by (simp add: batch_list.simps)

lemma batch_list_zero [simp]: "batch_list 0 xs = []"
  by (simp add: batch_list.simps)

lemma batch_list_Cons:
  "0 < b \<Longrightarrow> xs \<noteq> [] \<Longrightarrow> batch_list b xs = take b xs # batch_list b (drop b xs)"
  by (simp add: batch_list.simps)

lemma concat_batch_list: "0 < b \<Longrightarrow> concat (batch_list b xs) = xs"
proof (induction b xs rule: batch_list.induct)
  case (1 b xs)
  then show ?case by (cases "xs = []") (simp_all add: batch_list_Cons)
qed

lemma length_batch_list:
  "length (batch_list b xs) = (if b = 0 then 0 else (length xs + b - 1) div b)"
proof (induction b xs rule: batch_list.induct)
  case (1 b xs)
  show ?case
  proof (cases "b = 0 \<or> xs = []")
    case True
    then show ?thesis by (auto simp: batch_list.simps)
  next
    case False
    then have "length (batch_list b xs) = Suc ((length xs - b + b - 1) div b)"
      using "1.IH" by (simp add: batch_list_Cons)
    also have "\<dots> = (length xs + b - 1) div b"
    proof (cases "length xs \<le> b")
      case True
      have "length xs - b + b - 1 = b - 1" using True by simp
      moreover have "(b - 1) div b = 0" using False by (simp add: div_less)
      ultimately show ?thesis using ceil_div_le [of b "length xs"] True False by simp
    next
      case le: False
      then show ?thesis using ceil_div_gt [of b "length xs"] False by simp
    qed
    finally show ?thesis using False by simp
  qed
qed

lemma batch_list_sizes:
  "0 < b \<Longrightarrow> bt \<in> set (batch_list b xs) \<Longrightarrow> 0 < length bt \<and> length bt \<le> b"
proof (induction b xs rule: batch_list.induct)
  case (1 b xs)
  then show ?case
    by (cases "xs = []") (auto simp: batch_list_Cons)
qed

lemma batch_list_butlast_full:
  "0 < b \<Longrightarrow> bt \<in> set (butlast (batch_list b xs)) \<Longrightarrow> length bt = b"
proof (induction b xs rule: batch_list.induct)
  case (1 b xs)
  show ?case
  proof (cases "xs = [] \<or> length xs \<le> b")
    case True
    then have "batch_list b xs = (if xs = [] then [] else [take b xs])"
      using "1.prems"(1) by (auto simp: batch_list_Cons)
    with "1.prems"(2) show ?thesis by (simp split: if_splits)
  next
    case False
    with "1.prems" "1.IH" show ?thesis by (auto simp: batch_list_Cons split: if_splits)
  qed
qed

lemma map_batch_list: "map (map f) (batch_list b xs) = batch_list b (map f xs)"
proof (induction b xs rule: batch_list.induct)
  case (1 b xs)
  then show ?case by (cases "b = 0 \<or> xs = []") (auto simp: batch_list_Cons take_map drop_map)
qed


lemma length_last_batch_list:
  "0 < b \<Longrightarrow> xs \<noteq> [] \<Longrightarrow>
   length (last (batch_list b xs)) = (if length xs mod b = 0 then b else length xs mod b)"
proof (induction b xs rule: batch_list.induct)
  case (1 b xs)
  show ?case
  proof (cases "length xs \<le> b")
    case True
    then have "batch_list b xs = [take b xs]" using "1.prems" by (simp add: batch_list_Cons)
    then show ?thesis using True "1.prems" by (auto simp: le_less)
  next
    case False
    then have "drop b xs \<noteq> []" by simp
    moreover have "length (drop b xs) mod b = length xs mod b"
      using False by (simp add: mod_if)
    ultimately show ?thesis using "1.IH" "1.prems" by (simp add: batch_list_Cons)
  qed
qed

lemma init_pipeline_Inr:
  assumes "init_data_generator B paths fns = Inr (ds, nb)" and "init_iterator ds = Inr it"
    and "length paths = length fns"
  shows "0 < B" and "ds_elems ds = zip paths fns" and "it = batch_list (nat B) (zip paths fns)"
    and "nb = int (length it)"
proof -
  from assms(1) have nb: "num_batches B paths = Inr nb"
    and ds: "ds = \<lparr>ds_elems = zip paths fns, ds_batch_size = B\<rparr>"
    by (auto simp: init_data_generator_def split: sum.splits)
  from assms(2) ds show B: "0 < B" by (simp add: init_iterator_def split: if_splits)
  from ds show "ds_elems ds = zip paths fns" by simp
  from assms(2) ds show it: "it = batch_list (nat B) (zip paths fns)"
    by (simp add: init_iterator_def split: if_splits)
  have BB: "int (nat B) = B" using B by simp
  have "0 < nat B" using B by simp
  then have "py_ceil_div (int (length paths)) (int (nat B)) = Inr (int ((length paths + nat B - 1) div nat B))"
    by (rule py_ceil_div_nat)
  then have "py_ceil_div (int (length paths)) B = Inr (int ((length paths + nat B - 1) div nat B))"
    by (simp only: BB)
  then have "nb = int ((length paths + nat B - 1) div nat B)"
    using nb B by (simp add: num_batches_def)
  then show "nb = int (length it)"
    using B it assms(3) by (simp add: length_batch_list)
qed


text \<open>C6: the loop of \<open>main\<close> runs \<open>num_batches\<close> times, and \<open>num_batches\<close> is exactly
  the number of batches the initialised iterator holds: no batch is left
  unread and \<open>get_next\<close> never reaches the end of the data.\<close>

theorem num_batches_exact:
  assumes "init_data_generator B paths fns = Inr (ds, nb)" and "init_iterator ds = Inr it"
    and "length paths = length fns"
  shows "nb = int (length it)"
  using init_pipeline_Inr [OF assms] by simp

theorem num_batches_exact_witness:
  "init_data_generator 2 [''p1'', ''p2'', ''p3''] [''a'', ''b'', ''c''] = Inr (\<lparr>ds_elems = [(''p1'', ''a''), (''p2'', ''b''), (''p3'', ''c'')], ds_batch_size = 2\<rparr>, 2) \<and>
   snd (projr (init_data_generator 2 [''p1'', ''p2'', ''p3''] [''a'', ''b'', ''c''])) = int (length (projr (init_iterator (fst (projr (init_data_generator 2 [''p1'', ''p2'', ''p3''] [''a'', ''b'', ''c'']))))))"
proof -
  have g: "init_data_generator 2 [''p1'', ''p2'', ''p3''] [''a'', ''b'', ''c''] =
      Inr (\<lparr>ds_elems = [(''p1'', ''a''), (''p2'', ''b''), (''p3'', ''c'')], ds_batch_size = 2\<rparr>, 2)"
    by (simp add: model_simps py_ceil_div_def)
  have i: "init_iterator \<lparr>ds_elems = [(''p1'', ''a''), (''p2'', ''b''), (''p3'', ''c'')], ds_batch_size = 2\<rparr> =
      Inr [[(''p1'', ''a''), (''p2'', ''b'')], [(''p3'', ''c'')]]"
    by (simp add: model_simps)
  show ?thesis using num_batches_exact [OF g i] g i by simp
qed

text \<open>C7: concatenating the ids (and the paths) of the batches the iterator delivers,
  in order, gives back the \<open>fns\<close> (and \<open>img_paths\<close>) lists: batching neither
  drops, duplicates nor reorders an input.\<close>

theorem batches_concat_ids:
  assumes "init_data_generator B paths fns = Inr (ds, nb)" and "init_iterator ds = Inr it"
    and "length paths = length fns"
  shows "concat (map (map snd) it) = fns \<and> concat (map (map fst) it) = paths"
proof -
  note facts = init_pipeline_Inr [OF assms]
  have "concat (map (map snd) it) = map snd (concat it)" by (simp add: map_concat)
  moreover have "concat (map (map fst) it) = map fst (concat it)" by (simp add: map_concat)
  moreover have "concat it = zip paths fns" using facts(1,3) by (simp add: concat_batch_list)
  ultimately show ?thesis using assms(3) by simp
qed

theorem batches_concat_ids_witness:
  "init_iterator (fst (projr (init_data_generator 2 [''p1'', ''p2'', ''p3''] [''a'', ''b'', ''c'']))) = Inr [[(''p1'', ''a''), (''p2'', ''b'')], [(''p3'', ''c'')]] \<and>
   concat (map (map snd) (projr (init_iterator (fst (projr (init_data_generator 2 [''p1'', ''p2'', ''p3''] [''a'', ''b'', ''c''])))))) = [''a'', ''b'', ''c''] \<and>
   concat (map (map fst) (projr (init_iterator (fst (projr (init_data_generator 2 [''p1'', ''p2'', ''p3''] [''a'', ''b'', ''c''])))))) = [''p1'', ''p2'', ''p3'']"
proof -
  have g: "init_data_generator 2 [''p1'', ''p2'', ''p3''] [''a'', ''b'', ''c''] =
      Inr (\<lparr>ds_elems = [(''p1'', ''a''), (''p2'', ''b''), (''p3'', ''c'')], ds_batch_size = 2\<rparr>, 2)"
    by (simp add: model_simps py_ceil_div_def)
  have i: "init_iterator \<lparr>ds_elems = [(''p1'', ''a''), (''p2'', ''b''), (''p3'', ''c'')], ds_batch_size = 2\<rparr> =
      Inr [[(''p1'', ''a''), (''p2'', ''b'')], [(''p3'', ''c'')]]"
    by (simp add: model_simps)
  show ?thesis using batches_concat_ids [OF g i] g i by simp
qed

text \<open>C9: every batch but the last holds exactly \<open>batch_size\<close> elements, and the last
  holds \<open>len mod batch_size\<close> of them, or \<open>batch_size\<close> when that is 0.\<close>

theorem batch_sizes:
  assumes "init_data_generator B paths fns = Inr (ds, nb)" and "init_iterator ds = Inr it"
    and "length paths = length fns" and "paths \<noteq> []"
  shows "(\<forall>bt \<in> set (butlast it). length bt = nat B) \<and>
         length (last it) = (if length paths mod nat B = 0 then nat B else length paths mod nat B)"
proof -
  note facts = init_pipeline_Inr [OF assms(1-3)]
  have B: "0 < nat B" using facts(1) by simp
  have ne: "zip paths fns \<noteq> []" using assms(3,4) by (cases paths; cases fns) auto
  have full: "\<forall>bt \<in> set (butlast it). length bt = nat B"
    using batch_list_butlast_full [OF B] facts(3) by blast
  have "length (last it) = (if length paths mod nat B = 0 then nat B else length paths mod nat B)"
    using length_last_batch_list [OF B ne] facts(3) assms(3) by simp
  with full show ?thesis by simp
qed

theorem batch_sizes_witness:
  "init_iterator (fst (projr (init_data_generator 2 [''p1'', ''p2'', ''p3''] [''a'', ''b'', ''c'']))) = Inr [[(''p1'', ''a''), (''p2'', ''b'')], [(''p3'', ''c'')]] \<and>
   map length (butlast (projr (init_iterator (fst (projr (init_data_generator 2 [''p1'', ''p2'', ''p3''] [''a'', ''b'', ''c''])))))) = [2] \<and> length (last (projr (init_iterator (fst (projr (init_data_generator 2 [''p1'', ''p2'', ''p3''] [''a'', ''b'', ''c''])))))) = 1"
proof -
  have g: "init_data_generator 2 [''p1'', ''p2'', ''p3''] [''a'', ''b'', ''c''] =
      Inr (\<lparr>ds_elems = [(''p1'', ''a''), (''p2'', ''b''), (''p3'', ''c'')], ds_batch_size = 2\<rparr>, 2)"
    by (simp add: model_simps py_ceil_div_def)
  have i: "init_iterator \<lparr>ds_elems = [(''p1'', ''a''), (''p2'', ''b''), (''p3'', ''c'')], ds_batch_size = 2\<rparr> =
      Inr [[(''p1'', ''a''), (''p2'', ''b'')], [(''p3'', ''c'')]]"
    by (simp add: model_simps)
  show ?thesis using batch_sizes [OF g i] g i by simp
qed

end
