(* ===== verification/TopK.thy ===== *)
theory TopK
  imports Prelude "HOL-Library.Product_Lexorder"
begin

text \<open>
  The Inference Engine of \<^verbatim>\<open>src/predict.py\<close>: \<open>init_model\<close> (lines 77--86)
  and its use at line 114, \<open>sess.run(predictions['top_3'], feed_dict={x: img_batch})\<close>.
  The classifier \<open>MyModel(FLAGS.net)\<close> (in \<^verbatim>\<open>model.py\<close>, outside \<^verbatim>\<open>src/\<close>) is
  called with \<open>is_training = False\<close>; in inference mode each image's logits
  depend on that image only, so the classifier is a parameter
  \<open>net :: 'img \<Rightarrow> 's list\<close> giving one row of scores per image.
  \<open>tf.nn.top_k(logits, k=3)[1]\<close> is modelled by its documented semantics: the
  indices of the \<open>k\<close> largest entries of each row, largest first, equal entries
  by lower index first; a row with fewer than \<open>k\<close> entries raises.  Scores are
  any linearly ordered group (\<open>int\<close> in the witnesses): only their order matters.
  \<open>tf.argmax(logits, axis=1)\<close> (the \<open>'classes'\<close> node) is the scan
  \<open>argmax_acc\<close>, which keeps the first index of the largest score, as the CPU
  kernel does.  The lemmas show that \<open>top_k\<close> returns the best indices in rank order, that the
  \<open>classes\<close> node agrees with the first entry of \<open>top_3\<close> on rows whose
  maximum is unique (\<open>unique_max\<close>; TensorFlow does not specify which index
  \<open>argmax\<close> returns on a tie), and the shape of
  both nodes' results.
\<close>

section \<open>Definitions\<close>

text \<open>The rank of index \<open>i\<close> of a row: higher score first, then lower index.\<close>

definition rank_key :: "'s::linordered_ab_group_add list \<Rightarrow> nat \<Rightarrow> 's \<times> nat" where
  "rank_key s i = (- (s ! i), i)"

definition top_k :: "nat \<Rightarrow> 's::linordered_ab_group_add list \<Rightarrow> nat list result" where
  "top_k k s =
     (if length s < k then Inl TopKError
      else Inr (take k (sort_key (rank_key s) [0..<length s])))"

text \<open>\<open>tf.nn.top_k\<close> on the logits matrix: row by row.\<close>

fun top_k_rows :: "nat \<Rightarrow> 's::linordered_ab_group_add list list \<Rightarrow> nat list list result" where
  "top_k_rows k [] = Inr []"
| "top_k_rows k (r # rs) =
     (case top_k k r of
        Inl e \<Rightarrow> Inl e
      | Inr t \<Rightarrow> (case top_k_rows k rs of Inl e \<Rightarrow> Inl e | Inr ts \<Rightarrow> Inr (t # ts)))"

text \<open>
  Line 82, \<open>tf.argmax(logits, axis=1)\<close> on one row: a scan that keeps the
  first index of the largest score seen so far (a later score replaces it only
  when strictly larger); an empty row has nothing to reduce and raises.
\<close>

fun argmax_acc :: "nat \<Rightarrow> 's::linorder list \<Rightarrow> nat \<times> 's \<Rightarrow> nat" where
  "argmax_acc i [] (j, m) = j"
| "argmax_acc i (x # xs) (j, m) =
     (if m < x then argmax_acc (Suc i) xs (i, x) else argmax_acc (Suc i) xs (j, m))"

definition argmax_row :: "'s::linorder list \<Rightarrow> nat result" where
  "argmax_row s = (case s of [] \<Rightarrow> Inl EmptyReductionError | x # xs \<Rightarrow> Inr (argmax_acc 1 xs (0, x)))"

fun argmax_rows :: "'s::linorder list list \<Rightarrow> nat list result" where
  "argmax_rows [] = Inr []"
| "argmax_rows (r # rs) =
     (case argmax_row r of
        Inl e \<Rightarrow> Inl e
      | Inr a \<Rightarrow> (case argmax_rows rs of Inl e \<Rightarrow> Inl e | Inr as \<Rightarrow> Inr (a # as)))"

text \<open>
  Lines 77--86, \<open>init_model\<close>: the classifier's logits for the batch and the
  dictionary \<open>predictions\<close> of two graph nodes.  A node is evaluated only when
  \<open>sess.run\<close> asks for it, so each field holds the result (or the error) that
  running that node alone gives.
\<close>

record predictions =
  classes :: "nat list result"
  top_3 :: "nat list list result"

definition init_model :: "('img \<Rightarrow> 's::linordered_ab_group_add list) \<Rightarrow> 'img list \<Rightarrow> predictions" where
  "init_model net features =
     (let logits = map net features in \<lparr>classes = argmax_rows logits, top_3 = top_k_rows 3 logits\<rparr>)"

text \<open>
  A row whose largest score is attained at exactly one index.  \<open>tf.argmax\<close>
  does not specify which index it returns when the maximum is tied, so what
  the model proves of \<open>classes\<close> is stated on such rows.
\<close>

definition unique_max :: "'s::linorder list \<Rightarrow> bool" where
  "unique_max s \<longleftrightarrow> length (filter (\<lambda>i. \<forall>x \<in> set s. x \<le> s ! i) [0..<length s]) = 1"

text \<open>Line 114: \<open>sess.run(predictions['top_3'], feed_dict={x: img_batch})\<close>.\<close>

definition predict_top3 :: "('img \<Rightarrow> 's::linordered_ab_group_add list) \<Rightarrow> 'img list \<Rightarrow> nat list list result" where
  "predict_top3 net imgs = top_3 (init_model net imgs)"

section \<open>Lemmas\<close>

lemmas topk_defs [model_simps] = rank_key_def top_k_def predict_top3_def
  init_model_def argmax_row_def

lemma predict_top3_rows: "predict_top3 net imgs = top_k_rows 3 (map net imgs)"
  by (simp add: predict_top3_def init_model_def Let_def)

lemma rank_key_less:
  "rank_key s i < rank_key s j \<longleftrightarrow> s ! j < s ! i \<or> (s ! i = s ! j \<and> i < j)"
  by (auto simp: rank_key_def less_prod_def)

lemma inj_rank_key: "inj_on (rank_key s) A"
  by (auto simp: inj_on_def rank_key_def)

lemma sorted_wrt_rank_sort:
  "sorted_wrt (\<lambda>i j. rank_key s i < rank_key s j) (sort_key (rank_key s) xs) \<longleftrightarrow> distinct xs"
proof -
  have "sorted (map (rank_key s) (sort_key (rank_key s) xs))" by simp
  moreover have "distinct (map (rank_key s) (sort_key (rank_key s) xs)) \<longleftrightarrow> distinct xs"
    by (simp add: distinct_map inj_rank_key)
  ultimately show ?thesis
    by (metis sorted_wrt_map strict_sorted_iff)
qed

lemma top_k_rows_eq:
  "top_k_rows k rs =
     (if \<exists>r \<in> set rs. length r < k then Inl TopKError
      else Inr (map (\<lambda>r. take k (sort_key (rank_key r) [0..<length r])) rs))"
  by (induction rs) (auto simp: top_k_def)


lemma top_k_Inr:
  "top_k k s = Inr r \<longleftrightarrow> k \<le> length s \<and> r = take k (sort_key (rank_key s) [0..<length s])"
  by (auto simp: top_k_def)

lemma sorted_wrt_take_drop:
  assumes "sorted_wrt R xs" "j \<in> set (take k xs)" "i \<in> set (drop k xs)"
  shows "R j i"
proof -
  have "sorted_wrt R (take k xs @ drop k xs)" using assms(1) by simp
  then show ?thesis using assms(2,3) unfolding sorted_wrt_append by blast
qed

lemma notin_take_in_drop: "i \<in> set xs \<Longrightarrow> i \<notin> set (take k xs) \<Longrightarrow> i \<in> set (drop k xs)"
  by (metis Un_iff append_take_drop_id set_append)

text \<open>C10: \<open>top_k k\<close> on a score row with at least \<open>k\<close> entries returns \<open>k\<close> distinct
  valid indices, ordered by descending score with ties broken by ascending index,
  and every index left out ranks below every index returned.\<close>

theorem top_k_correct:
  assumes "top_k k s = Inr r"
  shows "length r = k \<and> distinct r \<and> set r \<subseteq> {..<length s} \<and>
         sorted_wrt (\<lambda>i j. s ! j < s ! i \<or> (s ! i = s ! j \<and> i < j)) r \<and>
         (\<forall>i < length s. i \<notin> set r \<longrightarrow> (\<forall>j \<in> set r. s ! i < s ! j \<or> (s ! i = s ! j \<and> j < i)))"
proof -
  define L where "L = sort_key (rank_key s) [0..<length s]"
  have k: "k \<le> length s" and r: "r = take k L"
    using assms by (simp_all add: top_k_Inr L_def)
  have sw: "sorted_wrt (\<lambda>i j. rank_key s i < rank_key s j) L"
    by (simp add: L_def sorted_wrt_rank_sort)
  have setL: "set L = {..<length s}" by (simp add: L_def atLeast0LessThan)
  have dL: "distinct L" by (simp add: L_def)
  have len: "length r = k" using k r by (simp add: L_def)
  have dist: "distinct r" using dL r by simp
  have sub: "set r \<subseteq> {..<length s}" using r setL set_take_subset by metis
  have "sorted_wrt (\<lambda>i j. rank_key s i < rank_key s j) r"
    using sorted_wrt_take [OF sw, of k] r by simp
  then have sorted: "sorted_wrt (\<lambda>i j. s ! j < s ! i \<or> (s ! i = s ! j \<and> i < j)) r"
    by (simp only: rank_key_less)
  have max: "\<forall>i < length s. i \<notin> set r \<longrightarrow> (\<forall>j \<in> set r. s ! i < s ! j \<or> (s ! i = s ! j \<and> j < i))"
  proof (intro allI impI ballI)
    fix i j assume i: "i < length s" "i \<notin> set r" and j: "j \<in> set r"
    have "i \<in> set (drop k L)" using i setL r notin_take_in_drop by (metis lessThan_iff)
    then have "rank_key s j < rank_key s i" using sorted_wrt_take_drop [OF sw] j r by blast
    then show "s ! i < s ! j \<or> (s ! i = s ! j \<and> j < i)" by (auto simp: rank_key_less)
  qed
  show ?thesis by (intro conjI) (fact len dist sub sorted max)+
qed

theorem top_k_correct_witness:
  "top_k 3 [1, 5, 3, 5 :: int] = Inr [1, 3, 2] \<and>
   sorted_wrt (\<lambda>i j. [1, 5, 3, 5 :: int] ! j < [1, 5, 3, 5] ! i \<or>
                      ([1, 5, 3, 5 :: int] ! i = [1, 5, 3, 5] ! j \<and> i < j)) [1, 3, 2]"
proof -
  have run: "top_k 3 [1, 5, 3, 5 :: int] = Inr [1, 3, 2]" by code_simp
  have "sorted_wrt (\<lambda>i j. [1, 5, 3, 5 :: int] ! j < [1, 5, 3, 5] ! i \<or>
                      ([1, 5, 3, 5 :: int] ! i = [1, 5, 3, 5] ! j \<and> i < j)) [1, 3, 2]"
    using top_k_correct [OF run] by (simp only: conj_assoc)
  with run show ?thesis by simp
qed

section \<open>The \<open>classes\<close> node\<close>

lemma rank_key_le:
  "rank_key s i \<le> rank_key s j \<longleftrightarrow> s ! j < s ! i \<or> (s ! i = s ! j \<and> i \<le> j)"
  by (auto simp: rank_key_def less_eq_prod_def)

lemma argmax_acc_min:
  assumes "drop i s = xs" and "j < i" and "i \<le> length s" and "m = s ! j"
    and "\<forall>k < i. rank_key s j \<le> rank_key s k"
  shows "argmax_acc i xs (j, m) < length s \<and>
         (\<forall>k < length s. rank_key s (argmax_acc i xs (j, m)) \<le> rank_key s k)"
  using assms
proof (induction xs arbitrary: i j m)
  case Nil
  then have "i = length s" by simp
  with Nil.prems show ?case by simp
next
  case (Cons x xs)
  have i: "i < length s" using Cons.prems(1) by (metis drop_all list.distinct(1) not_le)
  have x: "s ! i = x" using Cons.prems(1) by (rule nth_via_drop)
  have d: "drop (Suc i) s = xs" using Cons_nth_drop_Suc [OF i] Cons.prems(1) by simp
  show ?case
  proof (cases "m < x")
    case True
    have "\<forall>k < Suc i. rank_key s i \<le> rank_key s k"
    proof (intro allI impI)
      fix k assume k: "k < Suc i"
      have "rank_key s i \<le> rank_key s j" using True x Cons.prems(4) by (simp add: rank_key_le)
      then show "rank_key s i \<le> rank_key s k"
        using k Cons.prems(5) by (metis less_Suc_eq order.trans order_refl)
    qed
    then show ?thesis using Cons.IH [OF d _ _ x [symmetric]] True i by simp
  next
    case False
    have "rank_key s j \<le> rank_key s i" using False x Cons.prems(2,4) by (auto simp: rank_key_le)
    then have "\<forall>k < Suc i. rank_key s j \<le> rank_key s k" using Cons.prems(5) less_Suc_eq by auto
    then show ?thesis using Cons.IH [OF d _ _ Cons.prems(4)] False i Cons.prems(2) by simp
  qed
qed

lemma hd_sort_key_min:
  assumes "xs \<noteq> []"
  shows "hd (sort_key f xs) \<in> set xs \<and> (\<forall>x \<in> set xs. f (hd (sort_key f xs)) \<le> f x)"
proof -
  have "sort_key f xs \<noteq> []" using assms by (metis length_0_conv length_sort)
  then obtain h t where ht: "sort_key f xs = h # t" by (cases "sort_key f xs") auto
  have "sorted (map f (h # t))" using ht by (metis sorted_sort_key)
  then have "\<forall>y \<in> set (h # t). f h \<le> f y" by auto
  moreover have "set (h # t) = set xs" using ht by (metis set_sort)
  ultimately show ?thesis using ht by auto
qed

lemma rank_key_min_unique:
  assumes "a < n" "b < n" "\<forall>k < n. rank_key s a \<le> rank_key s k" "\<forall>k < n. rank_key s b \<le> rank_key s k"
  shows "a = b"
proof -
  have "rank_key s a = rank_key s b" using assms by (meson order_antisym)
  then show ?thesis by (simp add: rank_key_def)
qed

lemma argmax_row_hd:
  assumes "s \<noteq> []"
  shows "argmax_row s = Inr (hd (sort_key (rank_key s) [0..<length s]))"
proof -
  obtain x xs where s: "s = x # xs" using assms by (cases s) auto
  have "argmax_acc 1 xs (0, x) < length s \<and>
        (\<forall>k < length s. rank_key s (argmax_acc 1 xs (0, x)) \<le> rank_key s k)"
    using s by (intro argmax_acc_min) auto
  moreover have "hd (sort_key (rank_key s) [0..<length s]) < length s \<and>
      (\<forall>k < length s. rank_key s (hd (sort_key (rank_key s) [0..<length s])) \<le> rank_key s k)"
    using hd_sort_key_min [of "[0..<length s]" "rank_key s"] assms by simp
  ultimately have "argmax_acc 1 xs (0, x) = hd (sort_key (rank_key s) [0..<length s])"
    using rank_key_min_unique by blast
  then show ?thesis by (simp add: argmax_row_def s)
qed

lemma argmax_rows_eq:
  "argmax_rows rs =
     (if \<exists>r \<in> set rs. r = [] then Inl EmptyReductionError
      else Inr (map (\<lambda>r. hd (sort_key (rank_key r) [0..<length r])) rs))"
proof (induction rs)
  case Nil
  then show ?case by simp
next
  case (Cons r rs)
  show ?case
  proof (cases "r = []")
    case True
    then show ?thesis by (simp add: argmax_row_def)
  next
    case False
    then show ?thesis using Cons.IH by (simp add: argmax_row_hd)
  qed
qed

lemma init_model_rows:
  "top_3 (init_model net imgs) = top_k_rows 3 (map net imgs)"
  "classes (init_model net imgs) = argmax_rows (map net imgs)"
  by (simp_all add: init_model_def Let_def)

text \<open>C27: the two nodes of \<open>init_model\<close> agree: whenever \<open>predictions['top_3']\<close>
  can be computed for a batch whose rows each have a single largest score,
  \<open>predictions['classes']\<close> can be computed too, and each image's class is the
  first of its top 3.  (With a tied maximum \<open>tf.argmax\<close> may return any of the
  tied indices, so nothing is claimed there.)\<close>

theorem classes_first_of_top3:
  assumes "top_3 (init_model net imgs) = Inr t" and "\<forall>img \<in> set imgs. unique_max (net img)"
  shows "classes (init_model net imgs) = Inr (map hd t)"
proof -
  have rows: "\<forall>r \<in> set (map net imgs). 3 \<le> length r"
    and t: "t = map (\<lambda>r. take 3 (sort_key (rank_key r) [0..<length r])) (map net imgs)"
    using assms by (auto simp: init_model_rows top_k_rows_eq split: if_splits)
  have "\<not> (\<exists>r \<in> set (map net imgs). r = [])" using rows by fastforce
  then have "classes (init_model net imgs) = Inr (map (\<lambda>r. hd (sort_key (rank_key r) [0..<length r])) (map net imgs))"
    unfolding init_model_rows argmax_rows_eq by (simp only: if_False)
  also have "map (\<lambda>r. hd (sort_key (rank_key r) [0..<length r])) (map net imgs) = map hd t"
    using t by (simp add: hd_take)
  finally show ?thesis .
qed

text \<open>C28: the shape of \<open>predictions\<close> for a logits matrix with \<open>C \<ge> 3\<close> columns:
  both nodes compute, \<open>classes\<close> has one class index below \<open>C\<close> per image and
  \<open>top_3\<close> one row of 3 distinct class indices below \<open>C\<close> per image.\<close>

theorem predictions_shape:
  assumes cols: "\<forall>img \<in> set imgs. length (net img) = C" and C: "3 \<le> C"
  shows "\<exists>cs t. classes (init_model net imgs) = Inr cs \<and> top_3 (init_model net imgs) = Inr t \<and>
           length cs = length imgs \<and> length t = length imgs \<and> set cs \<subseteq> {..<C} \<and>
           (\<forall>r \<in> set t. length r = 3 \<and> distinct r \<and> set r \<subseteq> {..<C})"
proof -
  define L where "L = (\<lambda>img. sort_key (rank_key (net img)) [0..<C])"
  have sL: "\<And>img. set (L img) = {..<C}" and dL: "\<And>img. distinct (L img)"
    and len: "\<And>img. length (L img) = C"
    by (simp_all add: L_def atLeast0LessThan)
  have "\<not> (\<exists>r \<in> set (map net imgs). length r < 3)" using cols C by auto
  then have "top_3 (init_model net imgs) =
      Inr (map (\<lambda>r. take 3 (sort_key (rank_key r) [0..<length r])) (map net imgs))"
    unfolding init_model_rows top_k_rows_eq by (simp only: if_False)
  also have "map (\<lambda>r. take 3 (sort_key (rank_key r) [0..<length r])) (map net imgs) =
      map (\<lambda>img. take 3 (L img)) imgs"
    using cols by (induction imgs) (simp_all add: L_def)
  finally have top: "top_3 (init_model net imgs) = Inr (map (\<lambda>img. take 3 (L img)) imgs)" .
  have "\<not> (\<exists>r \<in> set (map net imgs). r = [])" using cols C by fastforce
  then have "classes (init_model net imgs) =
      Inr (map (\<lambda>r. hd (sort_key (rank_key r) [0..<length r])) (map net imgs))"
    unfolding init_model_rows argmax_rows_eq by (simp only: if_False)
  also have "map (\<lambda>r. hd (sort_key (rank_key r) [0..<length r])) (map net imgs) =
      map (\<lambda>img. hd (L img)) imgs"
    using cols by (induction imgs) (simp_all add: L_def)
  finally have cls: "classes (init_model net imgs) = Inr (map (\<lambda>img. hd (L img)) imgs)" .
  have hdL: "set (map (\<lambda>img. hd (L img)) imgs) \<subseteq> {..<C}"
  proof
    fix c assume "c \<in> set (map (\<lambda>img. hd (L img)) imgs)"
    then obtain img where c: "c = hd (L img)" by auto
    have "L img \<noteq> []" using len [of img] C by auto
    then show "c \<in> {..<C}" using c sL [of img] hd_in_set by blast
  qed
  have rows: "\<forall>r \<in> set (map (\<lambda>img. take 3 (L img)) imgs). length r = 3 \<and> distinct r \<and> set r \<subseteq> {..<C}"
  proof
    fix r assume "r \<in> set (map (\<lambda>img. take 3 (L img)) imgs)"
    then obtain img where r: "r = take 3 (L img)" by auto
    have "length r = 3" using r len [of img] C by simp
    moreover have "distinct r" using r dL [of img] by simp
    moreover have "set r \<subseteq> {..<C}" using r sL [of img] set_take_subset by metis
    ultimately show "length r = 3 \<and> distinct r \<and> set r \<subseteq> {..<C}" by blast
  qed
  have l1: "length (map (\<lambda>img. hd (L img)) imgs) = length imgs" by simp
  have l2: "length (map (\<lambda>img. take 3 (L img)) imgs) = length imgs" by simp
  show ?thesis
    by (intro exI [of _ "map (\<lambda>img. hd (L img)) imgs"] exI [of _ "map (\<lambda>img. take 3 (L img)) imgs"] conjI)
      (fact top cls hdL rows l1 l2)+
qed

theorem classes_first_of_top3_witness:
  "top_3 (init_model (\<lambda>r. r) [[1, 5, 3, 4], [2, 0, 9, 1 :: int]]) = Inr [[1, 3, 2], [2, 0, 3]] \<and>
   classes (init_model (\<lambda>r. r) [[1, 5, 3, 4], [2, 0, 9, 1 :: int]]) = Inr [1, 2]"
proof -
  have t: "top_3 (init_model (\<lambda>r. r) [[1, 5, 3, 4], [2, 0, 9, 1 :: int]]) = Inr [[1, 3, 2], [2, 0, 3]]"
    by code_simp
  have u: "\<forall>img \<in> set [[1, 5, 3, 4], [2, 0, 9, 1 :: int]]. unique_max ((\<lambda>r. r) img)"
    by code_simp
  show ?thesis using classes_first_of_top3 [OF t u] t by simp
qed

theorem predictions_shape_witness:
  "\<exists>cs t. classes (init_model (\<lambda>r. r) [[1, 5, 3, 5], [2, 0, 9, 1 :: int]]) = Inr cs \<and>
     top_3 (init_model (\<lambda>r. r) [[1, 5, 3, 5], [2, 0, 9, 1 :: int]]) = Inr t \<and>
     length cs = 2 \<and> length t = 2 \<and> set cs \<subseteq> {..<4} \<and>
     (\<forall>r \<in> set t. length r = 3 \<and> distinct r \<and> set r \<subseteq> {..<4})"
proof -
  note shape = predictions_shape [where net = "\<lambda>r. r" and imgs = "[[1, 5, 3, 5], [2, 0, 9, 1 :: int]]" and C = 4]
  show ?thesis using shape by (simp add: numeral_2_eq_2)
qed

end
