(* ===== verification/Writer.thy ===== *)
theory Writer
  imports Prelude
begin

text \<open>
  The Result Writer of \<^verbatim>\<open>src/predict.py\<close>: the text \<open>main\<close> writes to the
  submission file, line 99 (the header), lines 116--118 (one row per
  prediction, \<open>'{},{}\n'.format(fn, ' '.join([str(p) for p in preds]))\<close>) and
  lines 120--121 (one fallback row \<open>'{},93 83 2\n'\<close> per corrupted id), with
  Python's \<open>str\<close> on non-negative integers and \<open>str.join\<close>.  A reader of the
  rows, \<open>parse_row\<close>, states what a consumer of the CSV recovers from them;
  \<open>csv_start\<close>/\<open>csv_plain\<close>/\<open>csv_quoted\<close>, a standard CSV field splitter
  (RFC 4180 quoting), shows how a reader splits a row whose id holds a comma.
\<close>

section \<open>Definitions\<close>

definition newline :: char where "newline = CHR 0x0A"

definition digit_char :: "nat \<Rightarrow> char" where
  "digit_char d = char_of (48 + d)"

text \<open>\<open>str(p)\<close> for a class index: base 10, no leading zeros.\<close>

fun nat_str :: "nat \<Rightarrow> string" where
  "nat_str n = (if n < 10 then [digit_char n] else nat_str (n div 10) @ [digit_char (n mod 10)])"

declare nat_str.simps [simp del]

text \<open>\<open>sep.join(xs)\<close>.\<close>

fun py_join :: "string \<Rightarrow> string list \<Rightarrow> string" where
  "py_join sep [] = []"
| "py_join sep [x] = x"
| "py_join sep (x # xs) = x @ sep @ py_join sep xs"

definition header_line :: string where
  "header_line = ''id,predicted'' @ [newline]"

definition row_line :: "string \<Rightarrow> nat list \<Rightarrow> string" where
  "row_line fn preds = fn @ '','' @ py_join '' '' (map nat_str preds) @ [newline]"

definition fallback_line :: "string \<Rightarrow> string" where
  "fallback_line fn = fn @ '',93 83 2'' @ [newline]"

text \<open>The rows of one batch (lines 116--118), in \<open>zip\<close> order.\<close>

definition batch_rows :: "string list \<Rightarrow> nat list list \<Rightarrow> string" where
  "batch_rows fns preds = concat (map (\<lambda>(fn, p). row_line fn p) (zip fns preds))"

definition fallback_rows :: "string list \<Rightarrow> string" where
  "fallback_rows cs = concat (map fallback_line cs)"

subsection \<open>A reader for the rows\<close>

text \<open>\<open>str.split(sep)\<close> for a one-character separator.\<close>

fun split_on :: "char \<Rightarrow> string \<Rightarrow> string list" where
  "split_on c [] = [[]]"
| "split_on c (x # xs) =
     (if x = c then [] # split_on c xs
      else (case split_on c xs of w # ws \<Rightarrow> (x # w) # ws | [] \<Rightarrow> [[x]]))"

definition is_digit :: "char \<Rightarrow> bool" where
  "is_digit c \<longleftrightarrow> (48::nat) \<le> of_char c \<and> of_char c < (58::nat)"

definition digits_val :: "string \<Rightarrow> nat" where
  "digits_val s = foldl (\<lambda>acc c. 10 * acc + (of_char c - 48)) (0::nat) s"

text \<open>\<open>int(s)\<close> restricted to the canonical form \<open>str\<close> produces.\<close>

definition parse_nat :: "string \<Rightarrow> nat option" where
  "parse_nat s =
     (if s \<noteq> [] \<and> list_all is_digit s \<and> (hd s = CHR ''0'' \<longrightarrow> s = ''0'')
      then Some (digits_val s) else None)"

fun those_opt :: "'a option list \<Rightarrow> 'a list option" where
  "those_opt [] = Some []"
| "those_opt (x # xs) = (case x of None \<Rightarrow> None | Some y \<Rightarrow> map_option ((#) y) (those_opt xs))"

text \<open>The whole submission text (lines 99 and 116--121).\<close>

definition render_output :: "(string \<times> nat list) list \<Rightarrow> string list \<Rightarrow> string" where
  "render_output rows cs = header_line @ concat (map (\<lambda>(fn, p). row_line fn p) rows) @ fallback_rows cs"

text \<open>A row without its newline: the id up to the first comma, then space-separated indices.\<close>

definition parse_row :: "string \<Rightarrow> (string \<times> nat list) option" where
  "parse_row line =
     (case split_on CHR '','' line of
        [fn, rest] \<Rightarrow> map_option (Pair fn) (those_opt (map parse_nat (split_on CHR '' '' rest)))
      | _ \<Rightarrow> None)"

text \<open>A file: newline-terminated lines, the header first.\<close>

definition parse_file :: "string \<Rightarrow> (string \<times> nat list) list option" where
  "parse_file content =
     (let ls = split_on newline content in
      if last ls \<noteq> [] then None
      else (case butlast ls of
              h # rows \<Rightarrow> if h = ''id,predicted'' then those_opt (map parse_row rows) else None
            | [] \<Rightarrow> None))"

text \<open>A row line without its newline, as the reader sees it.\<close>

definition row_text :: "string \<times> nat list \<Rightarrow> string" where
  "row_text r = fst r @ '','' @ py_join '' '' (map nat_str (snd r))"

subsection \<open>How a CSV consumer reads a row\<close>

text \<open>
  The fields of one line as Python's \<open>csv.reader\<close> (default dialect: comma
  delimiter, double-quote quoting, doubled quotes inside quotes) or a
  spreadsheet splits them: a field that starts with a quote runs to the
  closing quote, with \<open>""\<close> standing for one quote; any other field runs to
  the next comma.
\<close>

fun csv_start :: "string \<Rightarrow> string list"
  and csv_plain :: "string \<Rightarrow> string \<Rightarrow> string list"
  and csv_quoted :: "string \<Rightarrow> string \<Rightarrow> string list" where
  "csv_start [] = [[]]"
| "csv_start (c # cs) = (if c = CHR 0x22 then csv_quoted [] cs else csv_plain [] (c # cs))"
| "csv_plain acc [] = [acc]"
| "csv_plain acc (c # cs) = (if c = CHR '','' then acc # csv_start cs else csv_plain (acc @ [c]) cs)"
| "csv_quoted acc [] = [acc]"
| "csv_quoted acc (c # cs) =
     (if c = CHR 0x22 then
        (case cs of
           d # ds \<Rightarrow> if d = CHR 0x22 then csv_quoted (acc @ [d]) ds else csv_plain acc cs
         | [] \<Rightarrow> [acc])
      else csv_quoted (acc @ [c]) cs)"

section \<open>Lemmas\<close>

lemmas writer_defs [model_simps] =
  newline_def digit_char_def nat_str.simps header_line_def row_line_def fallback_line_def
  batch_rows_def fallback_rows_def render_output_def parse_row_def parse_file_def parse_nat_def
  is_digit_def digits_val_def

lemma nat_str_Nil [simp]: "nat_str n \<noteq> []"
  by (subst nat_str.simps) simp

lemma digit_char_is_digit: "d < 10 \<Longrightarrow> is_digit (digit_char d)"
  by (simp add: digit_char_def is_digit_def)

lemma of_char_digit_char: "d < 10 \<Longrightarrow> of_char (digit_char d) = 48 + d"
  by (simp add: digit_char_def)

lemma nat_str_digits: "list_all is_digit (nat_str n)"
proof (induction n rule: nat_str.induct)
  case (1 n)
  then show ?case
    by (subst nat_str.simps) (simp add: digit_char_is_digit)
qed

lemma digits_val_snoc: "digits_val (s @ [c]) = 10 * digits_val s + (of_char c - 48)"
  by (simp add: digits_val_def)

lemma digits_val_nat_str: "digits_val (nat_str n) = n"
proof (induction n rule: nat_str.induct)
  case (1 n)
  show ?case
  proof (cases "n < 10")
    case True
    then show ?thesis by (subst nat_str.simps) (simp add: digits_val_def of_char_digit_char)
  next
    case False
    then have "digits_val (nat_str n) = 10 * digits_val (nat_str (n div 10)) + n mod 10"
      by (subst nat_str.simps) (simp add: digits_val_snoc of_char_digit_char)
    with False "1.IH" show ?thesis by simp
  qed
qed

lemma hd_nat_str: "hd (nat_str n) = CHR ''0'' \<Longrightarrow> n = 0"
proof (induction n rule: nat_str.induct)
  case (1 n)
  show ?case
  proof (cases "n < 10")
    case True
    with "1.prems" have "digit_char n = CHR ''0''" by (subst (asm) nat_str.simps) simp
    then have "of_char (digit_char n) = (48::nat)" by simp
    with True show ?thesis by (simp add: of_char_digit_char)
  next
    case False
    with "1.prems" have "hd (nat_str (n div 10)) = CHR ''0''" by (subst (asm) nat_str.simps) simp
    with False "1.IH" show ?thesis by simp
  qed
qed

lemma nat_str_zero: "nat_str 0 = ''0''"
  by code_simp

lemma parse_nat_nat_str: "parse_nat (nat_str n) = Some n"
  by (auto simp: parse_nat_def nat_str_digits digits_val_nat_str nat_str_zero dest: hd_nat_str)

lemma split_on_append:
  "c \<notin> set x \<Longrightarrow> split_on c (x @ c # y) = x # split_on c y"
  by (induction x) auto

lemma split_on_no_sep: "c \<notin> set x \<Longrightarrow> split_on c x = [x]"
  by (induction x) auto

lemma split_on_py_join:
  "xs \<noteq> [] \<Longrightarrow> \<forall>x \<in> set xs. c \<notin> set x \<Longrightarrow> split_on c (py_join [c] xs) = xs"
  by (induction "[c]" xs rule: py_join.induct) (auto simp: split_on_append split_on_no_sep)

lemma those_opt_map_Some: "those_opt (map (\<lambda>x. Some (f x)) xs) = Some (map f xs)"
  by (induction xs) auto

lemma space_notin_nat_str: "CHR '' '' \<notin> set (nat_str n)"
  using nat_str_digits [of n] by (auto simp: list_all_iff is_digit_def)

lemma comma_notin_nat_str: "CHR '','' \<notin> set (nat_str n)"
  using nat_str_digits [of n] by (auto simp: list_all_iff is_digit_def)

lemma notin_py_join:
  "c \<notin> set sep \<Longrightarrow> \<forall>x \<in> set xs. c \<notin> set x \<Longrightarrow> c \<notin> set (py_join sep xs)"
  by (induction sep xs rule: py_join.induct) auto

lemma comma_notin_py_join: "CHR '','' \<notin> set (py_join '' '' (map nat_str ps))"
  by (rule notin_py_join) (auto simp: comma_notin_nat_str)


lemma those_opt_map_eq:
  "\<forall>x \<in> set xs. f x = Some (g x) \<Longrightarrow> those_opt (map f xs) = Some (map g xs)"
  by (induction xs) auto

lemma split_on_lines:
  "\<forall>l \<in> set ls. c \<notin> set l \<Longrightarrow> split_on c (concat (map (\<lambda>l. l @ [c]) ls) @ rest) = ls @ split_on c rest"
  by (induction ls) (auto simp: split_on_append)

lemma parse_row_line:
  assumes "CHR '','' \<notin> set fn" and "p \<noteq> []"
  shows "parse_row (fn @ '','' @ py_join '' '' (map nat_str p)) = Some (fn, p)"
proof -
  have "split_on CHR '','' (fn @ '','' @ py_join '' '' (map nat_str p)) = [fn, py_join '' '' (map nat_str p)]"
    using assms(1) by (simp add: split_on_append split_on_no_sep comma_notin_py_join)
  moreover have "split_on CHR '' '' (py_join '' '' (map nat_str p)) = map nat_str p"
    using assms(2) split_on_py_join [of "map nat_str p" "CHR '' ''"] by (simp add: space_notin_nat_str)
  moreover have "those_opt (map parse_nat (map nat_str p)) = Some p"
    using those_opt_map_eq [of "map nat_str p" parse_nat "\<lambda>x. digits_val x"]
    by (simp add: parse_nat_nat_str digits_val_nat_str comp_def)
  ultimately show ?thesis by (simp add: parse_row_def)
qed

lemma fallback_line_row_line: "fallback_line fn = row_line fn [93, 83, 2]"
  by (simp add: fallback_line_def row_line_def nat_str.simps digit_char_def) code_simp


lemma newline_notin_nat_str: "newline \<notin> set (nat_str n)"
  using nat_str_digits [of n] by (auto simp: list_all_iff is_digit_def newline_def)

lemma row_line_text: "row_line fn p = row_text (fn, p) @ [newline]"
  by (simp add: row_line_def row_text_def)

lemma render_output_lines:
  "render_output rows cs =
     concat (map (\<lambda>l. l @ [newline]) (''id,predicted'' # map row_text (rows @ map (\<lambda>fn. (fn, [93, 83, 2])) cs)))"
proof -
  have "fallback_line = (\<lambda>fn. row_line fn [93, 83, 2])"
    by (rule ext) (rule fallback_line_row_line)
  then show ?thesis
    by (simp add: render_output_def header_line_def fallback_rows_def row_line_text split_def comp_def)
qed

lemma parse_row_text:
  assumes "CHR '','' \<notin> set (fst r)" and "snd r \<noteq> []"
  shows "parse_row (row_text r) = Some r"
  using parse_row_line [OF assms] by (simp add: row_text_def)

lemma newline_notin_row_text:
  assumes "newline \<notin> set fn"
  shows "newline \<notin> set (row_text (fn, p))"
proof -
  have "newline \<notin> set (py_join '' '' (map nat_str p))"
    using newline_notin_nat_str by (intro notin_py_join) (auto simp: newline_def)
  then show ?thesis using assms by (simp add: row_text_def newline_def)
qed

text \<open>C11: a consumer that splits the submission into lines, checks the header and
  splits each row at its first comma and at spaces reads back exactly the
  predictions written, followed by the fallback \<open>93 83 2\<close> for every corrupted
  id, provided no id contains a comma or a newline.\<close>

theorem output_roundtrip:
  assumes rows: "\<forall>(fn, p) \<in> set rows. CHR '','' \<notin> set fn \<and> newline \<notin> set fn \<and> p \<noteq> []"
    and cs: "\<forall>fn \<in> set cs. CHR '','' \<notin> set fn \<and> newline \<notin> set fn"
  shows "parse_file (render_output rows cs) = Some (rows @ map (\<lambda>fn. (fn, [93, 83, 2])) cs)"
proof -
  define all where "all = rows @ map (\<lambda>fn. (fn, [93 :: nat, 83, 2])) cs"
  have ok: "\<forall>r \<in> set all. CHR '','' \<notin> set (fst r) \<and> newline \<notin> set (fst r) \<and> snd r \<noteq> []"
    using rows cs by (auto simp: all_def)
  have "\<forall>r \<in> set all. newline \<notin> set (row_text r)"
    using ok newline_notin_row_text by (metis prod.collapse)
  then have nl: "\<forall>l \<in> set (''id,predicted'' # map row_text all). newline \<notin> set l"
    by (simp add: newline_def)
  have sp: "split_on newline (render_output rows cs) = (''id,predicted'' # map row_text all) @ [[]]"
    using split_on_lines [OF nl, of "[]"] by (simp add: render_output_lines all_def)
  have lst: "last (split_on newline (render_output rows cs)) = []"
    and btl: "butlast (split_on newline (render_output rows cs)) = ''id,predicted'' # map row_text all"
    by (simp_all only: sp last_snoc butlast_snoc)
  have parsed: "those_opt (map (parse_row \<circ> row_text) all) = Some all"
  proof -
    have "\<forall>r \<in> set all. (parse_row \<circ> row_text) r = Some r"
      using ok by (simp add: parse_row_text)
    then show ?thesis using those_opt_map_eq [of all "parse_row \<circ> row_text" id] by simp
  qed
  have "parse_file (render_output rows cs) = Some all"
    by (simp add: parse_file_def Let_def lst btl parsed)
  then show ?thesis by (simp only: all_def)
qed


theorem output_roundtrip_witness:
  "parse_file (render_output [(''a'', [1, 3, 2])] [''b'', ''c'']) =
     Some [(''a'', [1, 3, 2]), (''b'', [93, 83, 2]), (''c'', [93, 83, 2])]"
proof -
  have rows: "\<forall>(fn, p) \<in> set [(''a'', [1 :: nat, 3, 2])]. CHR '','' \<notin> set fn \<and> newline \<notin> set fn \<and> p \<noteq> []"
    by (simp add: newline_def)
  have cs: "\<forall>fn \<in> set [''b'', ''c'']. CHR '','' \<notin> set fn \<and> newline \<notin> set fn"
    by (simp add: newline_def)
  show ?thesis using output_roundtrip [OF rows cs] by simp
qed

lemma split_on_not_Nil [simp]: "split_on c xs \<noteq> []"
  by (induction xs) (auto split: list.splits)

lemma length_split_on: "length (split_on c xs) = Suc (count_list xs c)"
proof (induction xs)
  case Nil
  then show ?case by simp
next
  case (Cons x xs)
  then show ?case by (cases "split_on c xs") (auto split: list.splits)
qed

lemma length_split_on_mem: "c \<in> set xs \<Longrightarrow> 2 \<le> length (split_on c xs)"
proof -
  assume "c \<in> set xs"
  then have "0 < count_list xs c" by (induction xs) auto
  then show ?thesis by (simp add: length_split_on)
qed

lemma split_on_comma_append: "split_on c (xs @ c # ys) = split_on c xs @ split_on c ys"
proof (induction xs)
  case Nil
  then show ?case by simp
next
  case (Cons x xs)
  then show ?case by (cases "split_on c xs") (auto split: list.splits)
qed

lemma quote_notin_nat_str: "CHR 0x22 \<notin> set (nat_str n)"
  using nat_str_digits [of n] by (auto simp: list_all_iff is_digit_def)

lemma csv_noquote:
  "(CHR 0x22 \<notin> set s \<longrightarrow> csv_start s = split_on CHR '','' s) \<and>
   (\<forall>acc. CHR 0x22 \<notin> set s \<longrightarrow>
      csv_plain acc s = (acc @ hd (split_on CHR '','' s)) # tl (split_on CHR '','' s))"
proof (induction s)
  case Nil
  then show ?case by simp
next
  case (Cons c cs)
  have plain: "\<forall>acc. CHR 0x22 \<notin> set (c # cs) \<longrightarrow>
      csv_plain acc (c # cs) = (acc @ hd (split_on CHR '','' (c # cs))) # tl (split_on CHR '','' (c # cs))"
  proof (intro allI impI)
    fix acc assume nq: "CHR 0x22 \<notin> set (c # cs)"
    show "csv_plain acc (c # cs) = (acc @ hd (split_on CHR '','' (c # cs))) # tl (split_on CHR '','' (c # cs))"
    proof (cases "c = CHR '',''")
      case True
      then show ?thesis using Cons.IH nq by simp
    next
      case False
      obtain w ws where sp: "split_on CHR '','' cs = w # ws" by (cases "split_on CHR '','' cs") auto
      show ?thesis using Cons.IH nq False sp by simp
    qed
  qed
  moreover have "CHR 0x22 \<notin> set (c # cs) \<longrightarrow> csv_start (c # cs) = split_on CHR '','' (c # cs)"
    using plain split_on_not_Nil [of "CHR '',''" "c # cs"] by (cases "split_on CHR '','' (c # cs)") auto
  ultimately show ?case by blast
qed

text \<open>C22: ids are written unquoted, so a spreadsheet or \<open>csv.reader\<close> reading
  the submission splits an id that contains a comma into several fields: the
  row of such an id reads as the pieces of the id between its commas, then the
  predictions.  (A writer that quoted the id would give back two fields.)\<close>

theorem comma_id_splits:
  assumes "CHR '','' \<in> set fn" and "CHR 0x22 \<notin> set fn"
  shows "csv_start (butlast (row_line fn p)) = split_on CHR '','' fn @ [py_join '' '' (map nat_str p)] \<and>
         2 < length (csv_start (butlast (row_line fn p)))"
proof -
  have bl: "butlast (row_line fn p) = row_text (fn, p)" by (simp add: row_line_text)
  have nq: "CHR 0x22 \<notin> set (py_join '' '' (map nat_str p))"
    by (rule notin_py_join) (auto simp: quote_notin_nat_str)
  have nc: "CHR '','' \<notin> set (py_join '' '' (map nat_str p))" by (rule comma_notin_py_join)
  have "CHR 0x22 \<notin> set (row_text (fn, p))" using nq assms(2) by (simp add: row_text_def)
  then have "csv_start (row_text (fn, p)) = split_on CHR '','' (row_text (fn, p))"
    using csv_noquote by blast
  also have "\<dots> = split_on CHR '','' fn @ [py_join '' '' (map nat_str p)]"
    using nc by (simp add: row_text_def split_on_comma_append split_on_no_sep)
  finally have eq: "csv_start (row_text (fn, p)) = split_on CHR '','' fn @ [py_join '' '' (map nat_str p)]" .
  have "2 \<le> length (split_on CHR '','' fn)" using assms(1) by (rule length_split_on_mem)
  then show ?thesis using eq bl by simp
qed

theorem comma_id_splits_witness:
  "row_line ''a,b'' [1, 3, 2] = ''a,b,1 3 2'' @ [newline] \<and>
   csv_start (butlast (row_line ''a,b'' [1, 3, 2])) = [''a'', ''b'', ''1 3 2'']"
proof -
  have r: "row_line ''a,b'' [1, 3, 2] = ''a,b,1 3 2'' @ [newline]" by code_simp
  have "csv_start (butlast (row_line ''a,b'' [1, 3, 2])) = split_on CHR '','' ''a,b'' @ [py_join '' '' (map nat_str [1, 3, 2])]"
    using comma_id_splits [of "''a,b''" "[1, 3, 2]"] by simp
  also have "\<dots> = [''a'', ''b'', ''1 3 2'']" by code_simp
  finally show ?thesis using r by simp
qed

end
