(* ===== verification/Pipeline.thy ===== *)
theory Pipeline
  imports Validator Batching TopK Writer
begin

text \<open>
  The driver of \<^verbatim>\<open>src/predict.py\<close>: the flags (lines 13--32) and \<open>main\<close>
  (lines 89--124), composing the validator, the batch loader, the inference
  engine and the writer.  Its effects are explicit in a world record: the data
  directories, the \<open>submissions/\<close> directory as an association list from file
  names to contents, the checkpoint directories that hold a restorable
  checkpoint, and the files left open.  Every write reaches the file (the
  buffer is flushed when the interpreter exits, also after an exception); an
  exception ends \<open>main\<close> with the world as it was at that point.
\<close>

section \<open>Definitions\<close>

record flags =
  data_dir :: path
  checkpoint_dir :: path
  batch_size :: int
  num_threads :: int
  image_size :: int
  net :: string
  allow_soft_placement :: bool

definition default_flags :: flags where
  "default_flags =
     \<lparr>data_dir = ''data/Public'', checkpoint_dir = ''models/0_inception_resnet_v2'',
      batch_size = 16, num_threads = 8, image_size = 299, net = ''inception_resnet_v2'',
      allow_soft_placement = True\<rparr>"

record world =
  dirs :: filesystem
  submissions :: "(fname \<times> string) list option"
  has_checkpoint :: "path \<Rightarrow> bool"
  open_files :: "fname list"

text \<open>Line 98: the name of the new submission file, from the number of files already there.\<close>

definition submission_name :: "nat \<Rightarrow> string \<Rightarrow> fname" where
  "submission_name count net_name = nat_str count @ ''_submission_'' @ net_name @ ''.csv''"

text \<open>\<open>open(name, 'w')\<close>: the file is created or truncated, and stays open.\<close>

definition open_write :: "fname \<Rightarrow> world \<Rightarrow> world" where
  "open_write name w =
     w\<lparr>submissions := map_option (AList.update name []) (submissions w),
       open_files := open_files w @ [name]\<rparr>"

definition write_file :: "fname \<Rightarrow> string \<Rightarrow> world \<Rightarrow> world" where
  "write_file name text w =
     w\<lparr>submissions := map_option (AList.map_entry name (\<lambda>c. c @ text)) (submissions w)\<rparr>"

definition close_file :: "fname \<Rightarrow> world \<Rightarrow> world" where
  "close_file name w = w\<lparr>open_files := removeAll name (open_files w)\<rparr>"

text \<open>Lines 110--118: \<open>for _ in range(num_batches)\<close>, one batch per iteration.\<close>

fun infer_loop ::
  "(path \<Rightarrow> 'img option) \<Rightarrow> ('img \<Rightarrow> 's::linordered_ab_group_add list) \<Rightarrow> nat \<Rightarrow> iterator \<Rightarrow>
   fname \<Rightarrow> world \<Rightarrow> iterator result \<times> world" where
  "infer_loop decode model 0 it name w = (Inr it, w)"
| "infer_loop decode model (Suc n) it name w =
     (case get_next decode it of
        Inl e \<Rightarrow> (Inl e, w)
      | Inr ((img_batch, fn_batch), it') \<Rightarrow>
          (case predict_top3 model img_batch of
             Inl e \<Rightarrow> (Inl e, w)
           | Inr top3 \<Rightarrow> infer_loop decode model n it' name (write_file name (batch_rows fn_batch top3) w)))"

text \<open>Lines 89--124.\<close>

definition main ::
  "flags \<Rightarrow> (path \<Rightarrow> 'img option) \<Rightarrow> ('img \<Rightarrow> 's::linordered_ab_group_add list) \<Rightarrow> world \<Rightarrow> unit result \<times> world" where
  "main fl decode model w =
     (case list_files (dirs w) (data_dir fl) of
        Inl e \<Rightarrow> (Inl e, w)
      | Inr (img_paths, fns, corrupted_fns) \<Rightarrow>
     (case init_data_generator (batch_size fl) img_paths fns of
        Inl e \<Rightarrow> (Inl e, w)
      | Inr (ds, nb) \<Rightarrow>
     (case submissions w of
        None \<Rightarrow> (Inl (FileNotFoundError ''submissions/''), w)
      | Some subs \<Rightarrow>
     (let name = submission_name (length subs) (net fl);
          w1 = write_file name header_line (open_write name w)
      in if \<not> has_checkpoint w (checkpoint_dir fl) then (Inl CheckpointError, w1)
      else (case init_iterator ds of
              Inl e \<Rightarrow> (Inl e, w1)
            | Inr it \<Rightarrow>
          (case infer_loop decode model (nat nb) it name w1 of
             (Inl e, w2) \<Rightarrow> (Inl e, w2)
           | (Inr _, w2) \<Rightarrow> (Inr (), close_file name (write_file name (fallback_rows corrupted_fns) w2))))))))"

section \<open>The specification of a run\<close>

text \<open>
  What a successful run promises, stated on the directory listing: each usable
  entry, in listing order, gets a row with its id and the top-3 classes of its
  decoded image; then each corrupted id gets the fallback row.
\<close>

definition top3_of :: "('img \<Rightarrow> 's::linordered_ab_group_add list) \<Rightarrow> 'img \<Rightarrow> nat list" where
  "top3_of model img = take 3 (sort_key (rank_key (model img)) [0..<length (model img)])"

definition good_elem :: "(path \<Rightarrow> 'img option) \<Rightarrow> ('img \<Rightarrow> 's::linordered_ab_group_add list) \<Rightarrow> path \<times> string \<Rightarrow> bool" where
  "good_elem decode model x = (case decode (fst x) of None \<Rightarrow> False | Some img \<Rightarrow> 3 \<le> length (model img))"

definition elem_row :: "(path \<Rightarrow> 'img option) \<Rightarrow> ('img \<Rightarrow> 's::linordered_ab_group_add list) \<Rightarrow> path \<times> string \<Rightarrow> string" where
  "elem_row decode model x = row_line (snd x) (top3_of model (the (decode (fst x))))"

definition expected_output ::
  "(path \<Rightarrow> 'img option) \<Rightarrow> ('img \<Rightarrow> 's::linordered_ab_group_add list) \<Rightarrow> path \<Rightarrow> directory \<Rightarrow> string" where
  "expected_output decode model d es =
     render_output
       (map (\<lambda>x. (fn_stem (fst x), top3_of model (the (decode (path_join d (fst x)))))) (filter (usable \<circ> snd) es))
       (map (fn_stem \<circ> fst) (filter (Not \<circ> usable \<circ> snd) es))"

definition run_ok :: "flags \<Rightarrow> (path \<Rightarrow> 'img option) \<Rightarrow> ('img \<Rightarrow> 's::linordered_ab_group_add list) \<Rightarrow> world \<Rightarrow> bool" where
  "run_ok fl decode model w \<longleftrightarrow>
     (case dirs w (data_dir fl) of
        None \<Rightarrow> False
      | Some es \<Rightarrow> find (raises \<circ> snd) es = None \<and>
          list_all (\<lambda>x. usable (snd x) \<longrightarrow> good_elem decode model (path_join (data_dir fl) (fst x), fn_stem (fst x))) es) \<and>
     0 < batch_size fl \<and> submissions w \<noteq> None \<and> has_checkpoint w (checkpoint_dir fl)"

text \<open>
  The scenario of the specification as a world: the default flags' data
  directory holds \<open>demo_dir\<close>, \<open>submissions/\<close> is empty and the default
  checkpoint directory holds a checkpoint.
\<close>

definition demo_world :: world where
  "demo_world =
     \<lparr>dirs = [''data/Public'' \<mapsto> demo_dir], submissions = Some [],
      has_checkpoint = (\<lambda>p. p = ''models/0_inception_resnet_v2''), open_files = []\<rparr>"

section \<open>Lemmas\<close>

lemmas pipeline_defs [model_simps] =
  default_flags_def submission_name_def open_write_def write_file_def close_file_def main_def


lemma map_entry_comp: "AList.map_entry k f (AList.map_entry k g al) = AList.map_entry k (f \<circ> g) al"
  by (induction al) auto

lemma map_entry_id: "AList.map_entry k (\<lambda>c. c) al = al"
  by (induction al) auto

lemma write_file_write_file: "write_file name a (write_file name b w) = write_file name (b @ a) w"
  by (cases "submissions w") (simp_all add: write_file_def map_entry_comp comp_def)

lemma write_file_Nil [simp]: "write_file name [] w = w"
  by (cases "submissions w") (simp_all add: write_file_def map_entry_id)

lemma decode_batch_ok:
  "\<forall>x \<in> set b. decode (fst x) \<noteq> None \<Longrightarrow> decode_batch decode b = Inr (map (the \<circ> decode \<circ> fst) b, map snd b)"
  by (induction decode b rule: decode_batch.induct) auto

lemma decode_batch_bad:
  "\<exists>x \<in> set b. decode (fst x) = None \<Longrightarrow> \<exists>e. decode_batch decode b = Inl e"
proof (induction decode b rule: decode_batch.induct)
  case (1 decode)
  then show ?case by simp
next
  case (2 decode p fn rest)
  show ?case
  proof (cases "decode p")
    case None
    then show ?thesis by simp
  next
    case (Some img)
    with "2.prems" have "\<exists>x \<in> set rest. decode (fst x) = None" by auto
    with "2.IH" [OF Some] obtain e where "decode_batch decode rest = Inl e" by blast
    with Some show ?thesis by simp
  qed
qed

lemma predict_top3_ok:
  "\<forall>img \<in> set imgs. 3 \<le> length (model img) \<Longrightarrow> predict_top3 model imgs = Inr (map (top3_of model) imgs)"
  by (auto simp: predict_top3_rows top_k_rows_eq top3_of_def)

lemma predict_top3_bad:
  "\<exists>img \<in> set imgs. length (model img) < 3 \<Longrightarrow> predict_top3 model imgs = Inl TopKError"
  by (auto simp: predict_top3_rows top_k_rows_eq)

lemma batch_rows_elems:
  "\<forall>x \<in> set b. decode (fst x) \<noteq> None \<Longrightarrow>
   batch_rows (map snd b) (map (top3_of model) (map (the \<circ> decode \<circ> fst) b)) = concat (map (elem_row decode model) b)"
  by (induction b) (auto simp: batch_rows_def elem_row_def)

lemma get_next_good:
  assumes "\<forall>x \<in> set b. good_elem decode model x"
  shows "\<exists>imgs. get_next decode (b # it) = Inr ((imgs, map snd b), it) \<and>
           predict_top3 model imgs = Inr (map (top3_of model) imgs) \<and>
           batch_rows (map snd b) (map (top3_of model) imgs) = concat (map (elem_row decode model) b)"
proof -
  have dec: "\<forall>x \<in> set b. decode (fst x) \<noteq> None"
    using assms by (auto simp: good_elem_def split: option.splits)
  have len: "\<forall>img \<in> set (map (the \<circ> decode \<circ> fst) b). 3 \<le> length (model img)"
    using assms by (auto simp: good_elem_def split: option.splits)
  show ?thesis
    using decode_batch_ok [OF dec] predict_top3_ok [OF len] batch_rows_elems [OF dec]
    by (simp add: get_next_def)
qed

lemma infer_loop_ok:
  "\<forall>b \<in> set it. \<forall>x \<in> set b. good_elem decode model x \<Longrightarrow>
   infer_loop decode model (length it) it name w =
     (Inr [], write_file name (concat (map (concat \<circ> map (elem_row decode model)) it)) w)"
proof (induction it arbitrary: w)
  case Nil
  then show ?case by simp
next
  case (Cons b it)
  obtain imgs where
    g: "get_next decode (b # it) = Inr ((imgs, map snd b), it)" and
    p: "predict_top3 model imgs = Inr (map (top3_of model) imgs)" and
    r: "batch_rows (map snd b) (map (top3_of model) imgs) = concat (map (elem_row decode model) b)"
    using get_next_good [of b decode model it] Cons.prems by auto
  show ?case
    using Cons.IH [of "write_file name (concat (map (elem_row decode model) b)) w"] Cons.prems g p r
    by (simp add: write_file_write_file)
qed

lemma infer_loop_bad:
  "\<exists>b \<in> set it. \<exists>x \<in> set b. \<not> good_elem decode model x \<Longrightarrow>
   \<exists>e. fst (infer_loop decode model (length it) it name w) = Inl e"
proof (induction it arbitrary: w)
  case Nil
  then show ?case by simp
next
  case (Cons b it)
  show ?case
  proof (cases "\<forall>x \<in> set b. good_elem decode model x")
    case True
    then obtain imgs where
      g: "get_next decode (b # it) = Inr ((imgs, map snd b), it)" and
      p: "predict_top3 model imgs = Inr (map (top3_of model) imgs)"
      using get_next_good [of b decode model it] by auto
    from True Cons.prems have "\<exists>b \<in> set it. \<exists>x \<in> set b. \<not> good_elem decode model x" by auto
    then show ?thesis using Cons.IH g p by simp
  next
    case False
    show ?thesis
    proof (cases "\<exists>x \<in> set b. decode (fst x) = None")
      case True
      then obtain e where "decode_batch decode b = Inl e" using decode_batch_bad by blast
      then show ?thesis by (simp add: get_next_def)
    next
      case nodec: False
      then have dec: "\<forall>x \<in> set b. decode (fst x) \<noteq> None" by simp
      from False obtain x where x: "x \<in> set b" "\<not> good_elem decode model x" by blast
      from dec x(1) obtain img where img: "decode (fst x) = Some img" by auto
      with x(2) have "length (model img) < 3" by (simp add: good_elem_def)
      then have "\<exists>img \<in> set (map (the \<circ> decode \<circ> fst) b). length (model img) < 3"
        using x(1) img by force
      then have "predict_top3 model (map (the \<circ> decode \<circ> fst) b) = Inl TopKError"
        by (rule predict_top3_bad)
      then show ?thesis using decode_batch_ok [OF dec] by (simp add: get_next_def)
    qed
  qed
qed


lemma concat_batches_rows:
  "0 < b \<Longrightarrow> concat (map (concat \<circ> map f) (batch_list b xs)) = concat (map f xs)"
  by (simp only: concat_map_concat_map concat_batch_list)

lemma list_files_ok:
  assumes "dirs w d = Some es" and "find (raises \<circ> snd) es = None"
  shows "list_files (dirs w) d =
     Inr (map (path_join d \<circ> fst) (filter (usable \<circ> snd) es),
          map (fn_stem \<circ> fst) (filter (usable \<circ> snd) es),
          map (fn_stem \<circ> fst) (filter (Not \<circ> usable \<circ> snd) es))"
  using assms by (simp add: list_files_refines partition_spec_def)

lemma init_ok:
  assumes "0 < B" and "length ps = length ids"
  shows "init_data_generator B ps ids =
           Inr (\<lparr>ds_elems = zip ps ids, ds_batch_size = B\<rparr>, int (length (batch_list (nat B) (zip ps ids))))"
    and "init_iterator \<lparr>ds_elems = zip ps ids, ds_batch_size = B\<rparr> = Inr (batch_list (nat B) (zip ps ids))"
proof -
  show it: "init_iterator \<lparr>ds_elems = zip ps ids, ds_batch_size = B\<rparr> = Inr (batch_list (nat B) (zip ps ids))"
    using assms by (simp add: init_iterator_def)
  obtain nb where g: "init_data_generator B ps ids = Inr (\<lparr>ds_elems = zip ps ids, ds_batch_size = B\<rparr>, nb)"
    using assms by (simp add: init_data_generator_def num_batches_def py_ceil_div_def)
  then show "init_data_generator B ps ids =
           Inr (\<lparr>ds_elems = zip ps ids, ds_batch_size = B\<rparr>, int (length (batch_list (nat B) (zip ps ids))))"
    using init_pipeline_Inr (4) [OF g it assms(2)] by simp
qed

lemma zip_partition:
  "zip (map (path_join d \<circ> fst) xs) (map (fn_stem \<circ> fst) xs) =
   map (\<lambda>x. (path_join d (fst x), fn_stem (fst x))) xs"
  by (induction xs) auto

lemma rows_expected:
  "header_line @ concat (map (elem_row decode model) (map (\<lambda>x. (path_join d (fst x), fn_stem (fst x))) (filter (usable \<circ> snd) es)))
     @ fallback_rows (map (fn_stem \<circ> fst) (filter (Not \<circ> usable \<circ> snd) es))
   = expected_output decode model d es"
  by (simp add: expected_output_def render_output_def elem_row_def comp_def case_prod_beta)


lemma main_run_ok:
  assumes ok: "run_ok fl decode model w" and es: "dirs w (data_dir fl) = Some es"
    and subs: "submissions w = Some subs"
  shows "main fl decode model w =
    (Inr (), w\<lparr>submissions := Some (AList.update (submission_name (length subs) (net fl))
                                     (expected_output decode model (data_dir fl) es) subs),
              open_files := removeAll (submission_name (length subs) (net fl)) (open_files w)\<rparr>)"
proof -
  define d where "d = data_dir fl"
  define B where "B = batch_size fl"
  define name where "name = submission_name (length subs) (net fl)"
  define good where "good = filter (usable \<circ> snd) es"
  define cs where "cs = map (fn_stem \<circ> fst) (filter (Not \<circ> usable \<circ> snd) es)"
  define xs where "xs = map (\<lambda>x. (path_join d (fst x), fn_stem (fst x))) good"
  define it where "it = batch_list (nat B) xs"
  from ok es have nf: "find (raises \<circ> snd) es = None"
    and ge: "list_all (\<lambda>x. usable (snd x) \<longrightarrow> good_elem decode model (path_join d (fst x), fn_stem (fst x))) es"
    and B: "0 < B" and ck: "has_checkpoint w (checkpoint_dir fl)"
    by (auto simp: run_ok_def d_def B_def)
  have lf: "list_files (dirs w) (data_dir fl) = Inr (map (path_join d \<circ> fst) good, map (fn_stem \<circ> fst) good, cs)"
    using list_files_ok [OF es nf] by (simp add: good_def cs_def d_def)
  have len: "length (map (path_join d \<circ> fst) good) = length (map (fn_stem \<circ> fst) good)" by simp
  have zipeq: "zip (map (path_join d \<circ> fst) good) (map (fn_stem \<circ> fst) good) = xs"
    by (simp add: zip_partition xs_def)
  note init = init_ok [OF B len, unfolded zipeq, folded it_def]
  have B': "0 < nat B" using B by simp
  have gx: "\<forall>x \<in> set xs. good_elem decode model x"
    using ge by (auto simp: xs_def good_def list_all_iff)
  have allgood: "\<forall>b \<in> set it. \<forall>x \<in> set b. good_elem decode model x"
  proof (intro ballI)
    fix b x assume "b \<in> set it" "x \<in> set b"
    then have "x \<in> set (concat it)" by auto
    then have "x \<in> set xs" using concat_batch_list [OF B', of xs] by (simp add: it_def)
    with gx show "good_elem decode model x" by blast
  qed
  have rows: "concat (map (concat \<circ> map (elem_row decode model)) it) = concat (map (elem_row decode model) xs)"
    using concat_batches_rows [OF B'] by (simp add: it_def)
  have content: "header_line @ concat (map (elem_row decode model) xs) @ fallback_rows cs
      = expected_output decode model d es"
    using rows_expected [of decode model d es] by (simp add: xs_def good_def cs_def)
  show ?thesis
    using lf init ck infer_loop_ok [OF allgood, of name] subs content
    by (simp add: main_def Let_def B_def [symmetric] name_def [symmetric] d_def [symmetric] rows
        open_write_def write_file_def close_file_def)
qed


lemma main_Inr_run_ok:
  assumes r: "fst (main fl decode model w) = Inr ()"
  shows "run_ok fl decode model w"
proof -
  define d where "d = data_dir fl"
  define B where "B = batch_size fl"
  obtain ps ids cs where lf: "list_files (dirs w) d = Inr (ps, ids, cs)"
    using r by (cases "list_files (dirs w) d") (auto simp: main_def d_def)
  obtain es where es: "dirs w d = Some es"
    using lf by (cases "dirs w d") (auto simp: list_files_def)
  note part = list_files_Inr [OF es lf]
  have lenpi: "length ps = length ids" using part by simp
  obtain ds nb where g: "init_data_generator B ps ids = Inr (ds, nb)"
    using r lf by (cases "init_data_generator B ps ids") (auto simp: main_def d_def B_def)
  obtain subs where subs: "submissions w = Some subs"
    using r lf g by (cases "submissions w") (auto simp: main_def d_def B_def)
  define name where "name = submission_name (length subs) (net fl)"
  define w1 where "w1 = write_file name header_line (open_write name w)"
  have ck: "has_checkpoint w (checkpoint_dir fl)"
    using r lf g subs by (auto simp: main_def Let_def d_def B_def split: if_splits)
  obtain it where i: "init_iterator ds = Inr it"
    using r lf g subs ck by (cases "init_iterator ds") (auto simp: main_def Let_def d_def B_def)
  note ip = init_pipeline_Inr [OF g i lenpi]
  have loop: "\<exists>x w2. infer_loop decode model (length it) it name w1 = (Inr x, w2)"
    using r lf g subs ck i ip(4)
    by (auto simp: main_def Let_def d_def B_def name_def w1_def split: prod.splits sum.splits)
  then have allgood: "\<forall>b \<in> set it. \<forall>x \<in> set b. good_elem decode model x"
    using infer_loop_bad [of it decode model name w1] by force
  have B: "0 < nat B" using ip(1) by simp
  have "set (zip ps ids) = set (concat it)" using concat_batch_list [OF B, of "zip ps ids"] ip(3) by simp
  then have "\<forall>x \<in> set (zip ps ids). good_elem decode model x"
    using allgood by simp
  then have "list_all (\<lambda>x. usable (snd x) \<longrightarrow> good_elem decode model (path_join d (fst x), fn_stem (fst x))) es"
    using part(2,3) by (auto simp: list_all_iff zip_partition; blast)
  then show ?thesis
    using es part(1) ip(1) subs ck by (simp add: run_ok_def d_def B_def)
qed


lemma decode_batch_Inr:
  "decode_batch decode b = Inr (imgs, fns) \<Longrightarrow>
   (\<forall>x \<in> set b. decode (fst x) \<noteq> None) \<and> imgs = map (the \<circ> decode \<circ> fst) b \<and> fns = map snd b"
proof (induction decode b arbitrary: imgs fns rule: decode_batch.induct)
  case (1 decode)
  then show ?case by simp
next
  case (2 decode p fn rest)
  obtain img where img: "decode p = Some img"
    using "2.prems" by (auto split: option.splits)
  obtain imgs' fns' where r: "decode_batch decode rest = Inr (imgs', fns')"
    using "2.prems" img by (auto split: sum.splits)
  have "imgs = img # imgs'" and "fns = fn # fns'" using "2.prems" img r by auto
  with "2.IH" [OF img r] img show ?case by auto
qed

lemma predict_top3_Inr: "predict_top3 model imgs = Inr t \<Longrightarrow> t = map (top3_of model) imgs"
  by (auto simp: predict_top3_rows top_k_rows_eq top3_of_def split: if_splits)

lemma infer_loop_prefix:
  "infer_loop decode model n it name w = (r, w2) \<Longrightarrow>
   \<exists>k. w2 = write_file name (concat (map (concat \<circ> map (elem_row decode model)) (take k it))) w"
proof (induction n arbitrary: it w)
  case 0
  then show ?case by (intro exI [of _ 0]) simp
next
  case (Suc n)
  show ?case
  proof (cases "get_next decode it")
    case (Inl e)
    with Suc.prems show ?thesis by (intro exI [of _ 0]) simp
  next
    case (Inr res)
    obtain imgs fns it' where res: "res = ((imgs, fns), it')" by (metis prod.collapse)
    obtain b where it: "it = b # it'" and db: "decode_batch decode b = Inr (imgs, fns)"
      using Inr res by (auto simp: get_next_def split: list.splits sum.splits)
    note dec = decode_batch_Inr [OF db]
    show ?thesis
    proof (cases "predict_top3 model imgs")
      case (Inl e)
      with Suc.prems Inr res show ?thesis by (intro exI [of _ 0]) simp
    next
      case (Inr t)
      have rows: "batch_rows fns t = concat (map (elem_row decode model) b)"
        using batch_rows_elems [of b decode model] dec predict_top3_Inr [OF Inr] by simp
      from Suc.prems \<open>get_next decode it = Inr res\<close> res Inr
      have "infer_loop decode model n it' name (write_file name (batch_rows fns t) w) = (r, w2)" by simp
      then obtain k where "w2 = write_file name (concat (map (concat \<circ> map (elem_row decode model)) (take k it')))
                                  (write_file name (batch_rows fns t) w)"
        using Suc.IH by blast
      then show ?thesis using rows it
        by (intro exI [of _ "Suc k"]) (simp add: write_file_write_file comp_def)
    qed
  qed
qed

lemma main_Inl_cases:
  assumes run: "main fl decode model w = (Inl e, w')" and subs: "submissions w = Some subs"
  shows "w' = w \<or>
    (\<exists>ps ids cs ds nb. list_files (dirs w) (data_dir fl) = Inr (ps, ids, cs) \<and>
       init_data_generator (batch_size fl) ps ids = Inr (ds, nb) \<and>
       (w' = write_file (submission_name (length subs) (net fl)) header_line
                (open_write (submission_name (length subs) (net fl)) w) \<or>
        (\<exists>it k. init_iterator ds = Inr it \<and> nat nb = length it \<and>
           w' = write_file (submission_name (length subs) (net fl))
                  (header_line @ concat (map (concat \<circ> map (elem_row decode model)) (take k it)))
                  (open_write (submission_name (length subs) (net fl)) w))))"
proof (cases "list_files (dirs w) (data_dir fl)")
  case (Inl e')
  with run show ?thesis by (simp add: main_def)
next
  case (Inr l)
  obtain ps ids cs where lf: "list_files (dirs w) (data_dir fl) = Inr (ps, ids, cs)"
    using Inr by (metis prod.collapse)
  show ?thesis
  proof (cases "init_data_generator (batch_size fl) ps ids")
    case (Inl e')
    with run lf show ?thesis by (simp add: main_def)
  next
    case (Inr g)
    obtain ds nb where g: "init_data_generator (batch_size fl) ps ids = Inr (ds, nb)"
      using Inr by (metis prod.collapse)
    define name where "name = submission_name (length subs) (net fl)"
    define w1 where "w1 = write_file name header_line (open_write name w)"
    show ?thesis
    proof (cases "has_checkpoint w (checkpoint_dir fl) \<and> (\<exists>it. init_iterator ds = Inr it)")
      case False
      with run lf g subs have "w' = w1"
        by (auto simp: main_def Let_def name_def w1_def split: sum.splits if_splits)
      with lf g show ?thesis by (simp add: w1_def name_def)
    next
      case True
      then obtain it where ck: "has_checkpoint w (checkpoint_dir fl)" and i: "init_iterator ds = Inr it"
        by blast
      obtain es0 where es0: "dirs w (data_dir fl) = Some es0"
        using lf by (cases "dirs w (data_dir fl)") (auto simp: list_files_def)
      have lenpi: "length ps = length ids" using list_files_Inr (2,3) [OF es0 lf] by simp
      have nb: "nat nb = length it" using init_pipeline_Inr (4) [OF g i lenpi] by simp
      obtain r w2 where loop: "infer_loop decode model (nat nb) it name w1 = (r, w2)" by fastforce
      then obtain k where w2: "w2 = write_file name (concat (map (concat \<circ> map (elem_row decode model)) (take k it))) w1"
        using infer_loop_prefix by blast
      from run lf g subs ck i loop have "w' = w2"
        by (cases r) (auto simp: main_def Let_def name_def w1_def)
      with w2 lf g i nb show ?thesis by (auto simp: w1_def name_def write_file_write_file)
    qed
  qed
qed

lemma run_ok_batch_size:
  assumes "0 < b"
  shows "run_ok (fl\<lparr>batch_size := b\<rparr>) decode model w \<longleftrightarrow> run_ok (fl\<lparr>batch_size := 1\<rparr>) decode model w"
proof -
  have dd: "\<And>c. data_dir (fl\<lparr>batch_size := c\<rparr>) = data_dir fl" by simp
  show ?thesis using assms unfolding run_ok_def dd by simp
qed

text \<open>C1: a run that completes writes one new submission file, named from the number
  of files already in \<open>submissions/\<close>, whose text is the header, then one row per
  usable image in listing order with the top-3 classes of its decoded image,
  then a \<open>93 83 2\<close> row per corrupted id in listing order; no other file changes.\<close>

theorem main_output:
  assumes "main fl decode model w = (Inr (), w')"
    and "dirs w (data_dir fl) = Some es" and "submissions w = Some subs"
  shows "submissions w' =
           Some (AList.update (submission_name (length subs) (net fl)) (expected_output decode model (data_dir fl) es) subs)"
proof -
  have "run_ok fl decode model w" using assms(1) main_Inr_run_ok [of fl decode model w] by simp
  from main_run_ok [OF this assms(2,3)] assms(1) show ?thesis by simp
qed

theorem main_output_witness:
  "submissions (snd (main default_flags (\<lambda>p. Some p) (\<lambda>_. [1, 5, 3, 5 :: int]) demo_world)) =
     Some [(''0_submission_inception_resnet_v2.csv'',
            ''id,predicted'' @ [CHR 0x0A] @ ''a,1 3 2'' @ [CHR 0x0A] @ ''b,93 83 2'' @ [CHR 0x0A] @
            ''c,93 83 2'' @ [CHR 0x0A])]"
proof -
  have ok: "run_ok default_flags (\<lambda>p. Some p) (\<lambda>_. [1, 5, 3, 5 :: int]) demo_world"
    by (simp add: run_ok_def demo_world_def default_flags_def demo_dir_def good_elem_def model_simps)
  have es: "dirs demo_world (data_dir default_flags) = Some demo_dir"
    by (simp add: demo_world_def default_flags_def)
  have subs: "submissions demo_world = Some []" by (simp add: demo_world_def)
  have run: "main default_flags (\<lambda>p. Some p) (\<lambda>_. [1, 5, 3, 5 :: int]) demo_world =
      (Inr (), snd (main default_flags (\<lambda>p. Some p) (\<lambda>_. [1, 5, 3, 5 :: int]) demo_world))"
    using main_run_ok [OF ok es subs] by simp
  have out: "expected_output (\<lambda>p. Some p) (\<lambda>_. [1, 5, 3, 5 :: int]) (data_dir default_flags) demo_dir =
      ''id,predicted'' @ [CHR 0x0A] @ ''a,1 3 2'' @ [CHR 0x0A] @ ''b,93 83 2'' @ [CHR 0x0A] @
      ''c,93 83 2'' @ [CHR 0x0A]"
    by code_simp
  have name: "submission_name (length ([] :: (fname \<times> string) list)) (net default_flags) =
      ''0_submission_inception_resnet_v2.csv''"
    by code_simp
  show ?thesis using main_output [OF run es subs] out name by simp
qed

text \<open>C2: \<open>main\<close> completes exactly when the data directory exists and holds no
  sub-directory it cannot open, the batch size is positive, \<open>submissions/\<close>
  exists, a checkpoint is found, and every usable image decodes to at least 3
  class scores; in every other case it ends with an error.\<close>

theorem main_succeeds_iff: "fst (main fl decode model w) = Inr () \<longleftrightarrow> run_ok fl decode model w"
proof
  assume "fst (main fl decode model w) = Inr ()"
  then show "run_ok fl decode model w" by (rule main_Inr_run_ok)
next
  assume ok: "run_ok fl decode model w"
  then obtain es subs where "dirs w (data_dir fl) = Some es" and "submissions w = Some subs"
    by (auto simp: run_ok_def split: option.splits)
  from main_run_ok [OF ok this] show "fst (main fl decode model w) = Inr ()" by simp
qed

theorem main_succeeds_iff_witness:
  "fst (main default_flags (\<lambda>p. Some p) (\<lambda>_. [1, 5, 3, 5 :: int]) demo_world) = Inr ()"
proof -
  have ok: "run_ok default_flags (\<lambda>p. Some p) (\<lambda>_. [1, 5, 3, 5 :: int]) demo_world"
    by (simp add: run_ok_def demo_world_def default_flags_def demo_dir_def good_elem_def model_simps)
  show ?thesis using main_succeeds_iff [of default_flags "\<lambda>p. Some p" "\<lambda>_. [1, 5, 3, 5 :: int]" demo_world] ok
    by simp
qed

text \<open>C3: the batch size does not change what a run writes: two runs that differ only
  in a positive batch size both complete or both fail, and when one completes the
  two final worlds are equal.\<close>

theorem main_batch_size_independent:
  assumes "0 < b1" and "0 < b2"
    and "main (fl\<lparr>batch_size := b1\<rparr>) decode model w = (Inr (), w')"
  shows "main (fl\<lparr>batch_size := b2\<rparr>) decode model w = (Inr (), w')"
proof -
  have ok1: "run_ok (fl\<lparr>batch_size := b1\<rparr>) decode model w"
    using assms(3) main_Inr_run_ok [of "fl\<lparr>batch_size := b1\<rparr>" decode model w] by simp
  then have ok2: "run_ok (fl\<lparr>batch_size := b2\<rparr>) decode model w"
    using run_ok_batch_size assms(1,2) by blast
  from ok1 obtain es subs where es: "dirs w (data_dir fl) = Some es" and subs: "submissions w = Some subs"
    by (auto simp: run_ok_def split: option.splits)
  show ?thesis
    using main_run_ok [OF ok1, of es subs] main_run_ok [OF ok2, of es subs] es subs assms(3) by simp
qed

theorem main_batch_size_independent_witness:
  "main (default_flags\<lparr>batch_size := 2\<rparr>) (\<lambda>p. Some p) (\<lambda>_. [1, 5, 3, 5 :: int]) demo_world =
   main (default_flags\<lparr>batch_size := 1\<rparr>) (\<lambda>p. Some p) (\<lambda>_. [1, 5, 3, 5 :: int]) demo_world"
proof -
  have ok: "run_ok (default_flags\<lparr>batch_size := 1\<rparr>) (\<lambda>p. Some p) (\<lambda>_. [1, 5, 3, 5 :: int]) demo_world"
    by (simp add: run_ok_def demo_world_def default_flags_def demo_dir_def good_elem_def model_simps)
  then have run: "main (default_flags\<lparr>batch_size := 1\<rparr>) (\<lambda>p. Some p) (\<lambda>_. [1, 5, 3, 5 :: int]) demo_world =
      (Inr (), snd (main (default_flags\<lparr>batch_size := 1\<rparr>) (\<lambda>p. Some p) (\<lambda>_. [1, 5, 3, 5 :: int]) demo_world))"
    using main_succeeds_iff [of "default_flags\<lparr>batch_size := 1\<rparr>"] by (metis prod.collapse)
  show ?thesis using main_batch_size_independent [OF _ _ run, of 2] run by simp
qed


text \<open>C23: with no checkpoint to restore the run fails, but only after the submission
  file has been created with its header line and left open: a startup failure
  still leaves a new, header-only artifact behind.\<close>

theorem missing_checkpoint_leaves_header:
  assumes "list_files (dirs w) (data_dir fl) = Inr (ps, ids, cs)" and "batch_size fl \<noteq> 0"
    and "submissions w = Some subs" and "\<not> has_checkpoint w (checkpoint_dir fl)"
  shows "main fl decode model w =
    (Inl CheckpointError,
     w\<lparr>submissions := Some (AList.update (submission_name (length subs) (net fl)) header_line subs),
       open_files := open_files w @ [submission_name (length subs) (net fl)]\<rparr>)"
  using assms
  by (simp add: main_def init_data_generator_def num_batches_def py_ceil_div_def Let_def
      open_write_def write_file_def)

theorem missing_checkpoint_leaves_header_witness:
  "main default_flags (\<lambda>p. Some p) (\<lambda>_. [1, 5, 3, 5 :: int]) (demo_world\<lparr>has_checkpoint := (\<lambda>_. False)\<rparr>) =
    (Inl CheckpointError,
     demo_world\<lparr>has_checkpoint := (\<lambda>_. False),
                submissions := Some [(''0_submission_inception_resnet_v2.csv'', header_line)],
                open_files := [''0_submission_inception_resnet_v2.csv'']\<rparr>)"
proof -
  have lf: "list_files (dirs (demo_world\<lparr>has_checkpoint := (\<lambda>_. False)\<rparr>)) (data_dir default_flags) =
      Inr ([''data/Public/a.jpg''], [''a''], [''b'', ''c''])"
    by (simp add: demo_world_def default_flags_def demo_dir_def model_simps)
  have name: "submission_name (length ([] :: (fname \<times> string) list)) (net default_flags) =
      ''0_submission_inception_resnet_v2.csv''"
    by code_simp
  show ?thesis
    using missing_checkpoint_leaves_header [OF lf, of "[]" "\<lambda>p. Some p" "\<lambda>_. [1, 5, 3, 5 :: int]"] name
    by (simp add: demo_world_def default_flags_def)
qed

text \<open>C24: a batch size of 0 ends the run with \<open>ZeroDivisionError\<close> before anything
  is written; a negative batch size passes \<open>num_batches\<close> and is refused only
  when the iterator is initialised, after the header-only file has been created.\<close>

theorem bad_batch_size:
  assumes "list_files (dirs w) (data_dir fl) = Inr (ps, ids, cs)"
  shows "(batch_size fl = 0 \<longrightarrow> main fl decode model w = (Inl ZeroDivisionError, w)) \<and>
         (batch_size fl < 0 \<longrightarrow> submissions w = Some subs \<longrightarrow> has_checkpoint w (checkpoint_dir fl) \<longrightarrow>
            main fl decode model w =
              (Inl InvalidBatchSize,
               w\<lparr>submissions := Some (AList.update (submission_name (length subs) (net fl)) header_line subs),
                 open_files := open_files w @ [submission_name (length subs) (net fl)]\<rparr>))"
  using assms
  by (simp add: main_def init_data_generator_def num_batches_def py_ceil_div_def Let_def
      open_write_def write_file_def init_iterator_def)

theorem bad_batch_size_witness:
  "main (default_flags\<lparr>batch_size := 0\<rparr>) (\<lambda>p. Some p) (\<lambda>_. [1, 5, 3, 5 :: int]) demo_world =
     (Inl ZeroDivisionError, demo_world) \<and>
   fst (main (default_flags\<lparr>batch_size := -1\<rparr>) (\<lambda>p. Some p) (\<lambda>_. [1, 5, 3, 5 :: int]) demo_world) =
     Inl InvalidBatchSize"
proof -
  have lf0: "list_files (dirs demo_world) (data_dir (default_flags\<lparr>batch_size := 0\<rparr>)) =
      Inr ([''data/Public/a.jpg''], [''a''], [''b'', ''c''])"
    by (simp add: demo_world_def default_flags_def demo_dir_def model_simps)
  have lf1: "list_files (dirs demo_world) (data_dir (default_flags\<lparr>batch_size := -1\<rparr>)) =
      Inr ([''data/Public/a.jpg''], [''a''], [''b'', ''c''])"
    by (simp add: demo_world_def default_flags_def demo_dir_def model_simps)
  have subs: "submissions demo_world = Some []" by (simp add: demo_world_def)
  have ck: "has_checkpoint demo_world (checkpoint_dir (default_flags\<lparr>batch_size := -1\<rparr>))"
    by (simp add: demo_world_def default_flags_def)
  show ?thesis
    using bad_batch_size [OF lf0, where decode = "\<lambda>p. Some p" and model = "\<lambda>_. [1, 5, 3, 5 :: int]"]
      bad_batch_size [OF lf1, where decode = "\<lambda>p. Some p" and model = "\<lambda>_. [1, 5, 3, 5 :: int]"] subs ck
    by simp
qed

text \<open>C25: the file name counts the files already in \<open>submissions/\<close>, so when a file
  with that count's name is already there (an earlier file was deleted or
  renamed) a completed run overwrites it instead of creating a new artifact.\<close>

theorem rerun_overwrites:
  assumes "run_ok fl decode model w" and "dirs w (data_dir fl) = Some es"
    and "submissions w = Some [(submission_name 1 (net fl), old)]"
  shows "submissions (snd (main fl decode model w)) =
           Some [(submission_name 1 (net fl), expected_output decode model (data_dir fl) es)]"
  using main_run_ok [OF assms] by simp

theorem rerun_overwrites_witness:
  "submissions (snd (main default_flags (\<lambda>p. Some p) (\<lambda>_. [1, 5, 3, 5 :: int])
      (demo_world\<lparr>submissions := Some [(submission_name 1 ''inception_resnet_v2'', ''older run'')]\<rparr>))) =
   Some [(submission_name 1 ''inception_resnet_v2'',
          expected_output (\<lambda>p. Some p) (\<lambda>_. [1, 5, 3, 5 :: int]) ''data/Public'' demo_dir)]"
proof -
  let ?w = "demo_world\<lparr>submissions := Some [(submission_name 1 ''inception_resnet_v2'', ''older run'')]\<rparr>"
  have ok: "run_ok default_flags (\<lambda>p. Some p) (\<lambda>_. [1, 5, 3, 5 :: int]) ?w"
    by (simp add: run_ok_def demo_world_def default_flags_def demo_dir_def good_elem_def model_simps)
  have es: "dirs ?w (data_dir default_flags) = Some demo_dir"
    by (simp add: demo_world_def default_flags_def)
  have subs: "submissions ?w = Some [(submission_name 1 (net default_flags), ''older run'')]"
    by (simp add: default_flags_def)
  show ?thesis using rerun_overwrites [OF ok es subs] by (simp add: default_flags_def)
qed


lemma expected_output_split:
  assumes "dirs w (data_dir fl) = Some es" and "list_files (dirs w) (data_dir fl) = Inr (ps, ids, cs)"
    and "0 < b"
  shows "expected_output decode model (data_dir fl) es =
           header_line @ concat (map (concat \<circ> map (elem_row decode model)) (batch_list b (zip ps ids)))
             @ fallback_rows cs"
proof -
  note part = list_files_Inr [OF assms(1,2)]
  have z: "zip ps ids = map (\<lambda>x. (path_join (data_dir fl) (fst x), fn_stem (fst x))) (filter (usable \<circ> snd) es)"
    using part(2,3) by (simp add: zip_partition)
  have r: "concat (map (concat \<circ> map (elem_row decode model)) (batch_list b (zip ps ids))) =
      concat (map (elem_row decode model) (zip ps ids))"
    by (rule concat_batches_rows [OF assms(3)])
  show ?thesis unfolding r unfolding z part(4) by (rule rows_expected [symmetric])
qed

text \<open>C26: whatever way a run ends, a submission file it created holds a prefix of the
  complete expected text: the header, then rows of whole batches in order, then
  (only on success) the fallback rows.  A failed run leaves a truncated file, not
  an absent one and never a reordered one.\<close>

theorem output_always_prefix:
  assumes run: "main fl decode model w = (r, w')" and es: "dirs w (data_dir fl) = Some es"
    and subs: "submissions w = Some subs"
    and fresh: "submission_name (length subs) (net fl) \<notin> fst ` set subs"
    and c: "map_of (the (submissions w')) (submission_name (length subs) (net fl)) = Some c"
  shows "prefix c (expected_output decode model (data_dir fl) es)"
proof (cases r)
  case (Inr u)
  then have "run_ok fl decode model w" using run main_Inr_run_ok [of fl decode model w] by simp
  from main_run_ok [OF this es subs] run c show ?thesis by simp
next
  case (Inl e)
  define name where "name = submission_name (length subs) (net fl)"
  have wr: "\<And>t. submissions (write_file name t (open_write name w)) = Some (AList.update name t subs)"
    using subs by (simp add: open_write_def write_file_def)
  from main_Inl_cases [OF run [unfolded Inl] subs, folded name_def] show ?thesis
  proof (elim disjE exE conjE)
    assume "w' = w"
    with c subs fresh show ?thesis by (simp add: name_def map_of_eq_None_iff [symmetric])
  next
    fix ps ids cs ds nb
    assume lf: "list_files (dirs w) (data_dir fl) = Inr (ps, ids, cs)"
      and g: "init_data_generator (batch_size fl) ps ids = Inr (ds, nb)"
      and w': "w' = write_file name header_line (open_write name w)"
    have "c = header_line" using c w' wr by (simp add: name_def)
    then show ?thesis by (simp add: expected_output_def render_output_def)
  next
    fix ps ids cs ds nb it k
    assume lf: "list_files (dirs w) (data_dir fl) = Inr (ps, ids, cs)"
      and g: "init_data_generator (batch_size fl) ps ids = Inr (ds, nb)"
      and i: "init_iterator ds = Inr it"
      and w': "w' = write_file name (header_line @ concat (map (concat \<circ> map (elem_row decode model)) (take k it)))
                     (open_write name w)"
    define g' where "g' = concat \<circ> map (elem_row decode model)"
    have lenpi: "length ps = length ids" using list_files_Inr (2,3) [OF es lf] by simp
    note ip = init_pipeline_Inr [OF g i lenpi]
    have b: "0 < nat (batch_size fl)" using ip(1) by simp
    have exp: "expected_output decode model (data_dir fl) es = header_line @ concat (map g' it) @ fallback_rows cs"
      using expected_output_split [OF es lf b] ip(3) by (simp add: g'_def)
    have "concat (map g' it) = concat (map g' (take k it)) @ concat (map g' (drop k it))"
      by (metis append_take_drop_id concat_append map_append)
    then have "expected_output decode model (data_dir fl) es =
        (header_line @ concat (map g' (take k it))) @ (concat (map g' (drop k it)) @ fallback_rows cs)"
      using exp by simp
    moreover have "c = header_line @ concat (map g' (take k it))" using c w' wr by (simp add: name_def g'_def)
    ultimately show ?thesis by (simp add: prefixI)
  qed
qed


theorem output_always_prefix_witness:
  "prefix (header_line @ ''a,1 3 2'' @ [CHR 0x0A])
     (expected_output (\<lambda>p. Some p) (\<lambda>p. if p = ''data/Public/d.jpg'' then [1, 2] else [1, 5, 3, 5 :: int])
        ''data/Public'' (demo_dir @ [(''d.jpg'', snd (hd demo_dir))])) \<and>
   fst (main (default_flags\<lparr>batch_size := 1\<rparr>) (\<lambda>p. Some p)
          (\<lambda>p. if p = ''data/Public/d.jpg'' then [1, 2] else [1, 5, 3, 5 :: int])
          (demo_world\<lparr>dirs := [''data/Public'' \<mapsto> demo_dir @ [(''d.jpg'', snd (hd demo_dir))]]\<rparr>)) = Inl TopKError"
proof -
  let ?fl = "default_flags\<lparr>batch_size := 1\<rparr>"
  let ?m = "\<lambda>p. if p = ''data/Public/d.jpg'' then [1, 2] else [1, 5, 3, 5 :: int]"
  let ?es = "demo_dir @ [(''d.jpg'', snd (hd demo_dir))]"
  let ?w = "demo_world\<lparr>dirs := [''data/Public'' \<mapsto> ?es]\<rparr>"
  have f: "fst (main ?fl (\<lambda>p. Some p) ?m ?w) = Inl TopKError" by code_simp
  have s: "submissions (snd (main ?fl (\<lambda>p. Some p) ?m ?w)) =
      Some [(''0_submission_inception_resnet_v2.csv'', header_line @ ''a,1 3 2'' @ [CHR 0x0A])]"
    by code_simp
  have run: "main ?fl (\<lambda>p. Some p) ?m ?w = (Inl TopKError, snd (main ?fl (\<lambda>p. Some p) ?m ?w))"
    using f by (metis prod.collapse)
  have es: "dirs ?w (data_dir ?fl) = Some ?es" by (simp add: default_flags_def)
  have subs: "submissions ?w = Some []" by (simp add: demo_world_def)
  have name: "submission_name (length ([] :: (fname \<times> string) list)) (net ?fl) =
      ''0_submission_inception_resnet_v2.csv''"
    by code_simp
  have fresh: "submission_name (length ([] :: (fname \<times> string) list)) (net ?fl) \<notin> fst ` set []" by simp
  have c: "map_of (the (submissions (snd (main ?fl (\<lambda>p. Some p) ?m ?w))))
             (submission_name (length ([] :: (fname \<times> string) list)) (net ?fl)) =
      Some (header_line @ ''a,1 3 2'' @ [CHR 0x0A])"
    using name s by simp
  have "prefix (header_line @ ''a,1 3 2'' @ [CHR 0x0A]) (expected_output (\<lambda>p. Some p) ?m (data_dir ?fl) ?es)"
    by (rule output_always_prefix [OF run es subs fresh c])
  then show ?thesis using f by (simp add: default_flags_def)
qed
lemma run_ok_world_cong:
  assumes "run_ok fl decode model w1" and "dirs w2 = dirs w1" and "has_checkpoint w2 = has_checkpoint w1"
    and "submissions w2 \<noteq> None"
  shows "run_ok fl decode model w2"
  using assms by (simp add: run_ok_def)

text \<open>C17: re-running on the same directory and checkpoint succeeds again and
  writes the same text, whatever \<open>submissions/\<close> holds by then; only the
  file's name, which counts the files already there, differs.\<close>

theorem rerun_same_content:
  assumes r1: "main fl decode model w1 = (Inr (), w1')"
    and d: "dirs w2 = dirs w1" and ck: "has_checkpoint w2 = has_checkpoint w1"
    and s1: "submissions w1 = Some subs1" and s2: "submissions w2 = Some subs2"
  shows "\<exists>w2'. main fl decode model w2 = (Inr (), w2') \<and>
           map_of (the (submissions w2')) (submission_name (length subs2) (net fl)) =
           map_of (the (submissions w1')) (submission_name (length subs1) (net fl))"
proof -
  have ok1: "run_ok fl decode model w1" using r1 main_Inr_run_ok [of fl decode model w1] by simp
  have ok2: "run_ok fl decode model w2" using run_ok_world_cong [OF ok1 d ck] s2 by simp
  obtain es where es1: "dirs w1 (data_dir fl) = Some es"
    using ok1 by (auto simp: run_ok_def split: option.splits)
  have es2: "dirs w2 (data_dir fl) = Some es" using es1 d by simp
  show ?thesis using main_run_ok [OF ok1 es1 s1] main_run_ok [OF ok2 es2 s2] r1 by simp
qed

theorem rerun_same_content_witness:
  "fst (main default_flags (\<lambda>p. Some p) (\<lambda>_. [1, 5, 3, 5 :: int])
          (demo_world\<lparr>submissions := Some [(''0_submission_inception_resnet_v2.csv'', ''older'')]\<rparr>)) = Inr () \<and>
   map_of (the (submissions (snd (main default_flags (\<lambda>p. Some p) (\<lambda>_. [1, 5, 3, 5 :: int])
          (demo_world\<lparr>submissions := Some [(''0_submission_inception_resnet_v2.csv'', ''older'')]\<rparr>)))))
     (submission_name 1 ''inception_resnet_v2'') =
   map_of (the (submissions (snd (main default_flags (\<lambda>p. Some p) (\<lambda>_. [1, 5, 3, 5 :: int]) demo_world))))
     (submission_name 0 ''inception_resnet_v2'')"
proof -
  let ?m = "\<lambda>_ :: path. [1, 5, 3, 5 :: int]"
  let ?w2 = "demo_world\<lparr>submissions := Some [(''0_submission_inception_resnet_v2.csv'', ''older'')]\<rparr>"
  have ok: "run_ok default_flags (\<lambda>p. Some p) ?m demo_world"
    by (simp add: run_ok_def demo_world_def default_flags_def demo_dir_def good_elem_def model_simps)
  have es: "dirs demo_world (data_dir default_flags) = Some demo_dir"
    by (simp add: demo_world_def default_flags_def)
  have subs: "submissions demo_world = Some []" by (simp add: demo_world_def)
  have r1: "main default_flags (\<lambda>p. Some p) ?m demo_world =
      (Inr (), snd (main default_flags (\<lambda>p. Some p) ?m demo_world))"
    using main_run_ok [OF ok es subs] by simp
  obtain w2' where r2: "main default_flags (\<lambda>p. Some p) ?m ?w2 = (Inr (), w2')"
    and eq: "map_of (the (submissions w2')) (submission_name (length [(''0_submission_inception_resnet_v2.csv'', ''older'')]) (net default_flags)) =
      map_of (the (submissions (snd (main default_flags (\<lambda>p. Some p) ?m demo_world))))
        (submission_name (length ([] :: (fname \<times> string) list)) (net default_flags))"
    using rerun_same_content [OF r1, of ?w2 "[]" "[(''0_submission_inception_resnet_v2.csv'', ''older'')]"] subs
    by auto
  show ?thesis using r2 eq by (simp add: default_flags_def)
qed

text \<open>C29: \<open>main\<close> touches only its own submission file.  On every exit the
  data directories and checkpoints are unchanged, every other file of
  \<open>submissions/\<close> keeps its content, no other file is opened or closed, and a run
  that completes has closed its submission file (the \<open>with open(...)\<close> of
  line 99).\<close>

theorem main_frame:
  assumes subs: "submissions w = Some subs"
  shows "let w' = snd (main fl decode model w); name = submission_name (length subs) (net fl) in
         dirs w' = dirs w \<and> has_checkpoint w' = has_checkpoint w \<and>
         (\<exists>subs'. submissions w' = Some subs' \<and> (\<forall>n. n \<noteq> name \<longrightarrow> map_of subs' n = map_of subs n)) \<and>
         removeAll name (open_files w') = removeAll name (open_files w) \<and>
         (fst (main fl decode model w) = Inr () \<longrightarrow> name \<notin> set (open_files w'))"
proof -
  define name where "name = submission_name (length subs) (net fl)"
  obtain r w' where run: "main fl decode model w = (r, w')" by fastforce
  have "dirs w' = dirs w \<and> has_checkpoint w' = has_checkpoint w \<and>
        (\<exists>subs'. submissions w' = Some subs' \<and> (\<forall>n. n \<noteq> name \<longrightarrow> map_of subs' n = map_of subs n)) \<and>
        removeAll name (open_files w') = removeAll name (open_files w) \<and>
        (r = Inr () \<longrightarrow> name \<notin> set (open_files w'))"
  proof (cases r)
    case (Inr u)
    then have ok: "run_ok fl decode model w" using run main_Inr_run_ok [of fl decode model w] by simp
    then obtain es where es: "dirs w (data_dir fl) = Some es"
      by (auto simp: run_ok_def split: option.splits)
    have "w' = w\<lparr>submissions := Some (AList.update name (expected_output decode model (data_dir fl) es) subs),
                 open_files := removeAll name (open_files w)\<rparr>"
      using main_run_ok [OF ok es subs] run by (simp add: name_def)
    then show ?thesis by (simp add: update_conv')
  next
    case (Inl e)
    from main_Inl_cases [OF run [unfolded Inl] subs]
    have "w' = w \<or> (\<exists>t. w' = write_file name t (open_write name w))"
      unfolding name_def by blast
    then show ?thesis using subs Inl
      by (auto simp: write_file_def open_write_def map_of_map_entry update_conv')
  qed
  then show ?thesis using run by (simp add: name_def Let_def)
qed

theorem main_frame_witness:
  "fst (main default_flags (\<lambda>p. Some p) (\<lambda>_. [1, 5, 3, 5 :: int]) (demo_world\<lparr>submissions := Some [(''old.csv'', ''x'')]\<rparr>)) = Inr () \<and>
   ''1_submission_inception_resnet_v2.csv'' \<notin>
     set (open_files (snd (main default_flags (\<lambda>p. Some p) (\<lambda>_. [1, 5, 3, 5 :: int]) (demo_world\<lparr>submissions := Some [(''old.csv'', ''x'')]\<rparr>)))) \<and>
   (\<exists>subs'. submissions (snd (main default_flags (\<lambda>p. Some p) (\<lambda>_. [1, 5, 3, 5 :: int])
        (demo_world\<lparr>submissions := Some [(''old.csv'', ''x'')]\<rparr>))) = Some subs' \<and> map_of subs' ''old.csv'' = Some ''x'')"
proof -
  let ?w = "demo_world\<lparr>submissions := Some [(''old.csv'', ''x'')]\<rparr>"
  let ?m = "\<lambda>_ :: path. [1, 5, 3, 5 :: int]"
  have subs: "submissions ?w = Some [(''old.csv'', ''x'')]" by simp
  have ok: "run_ok default_flags (\<lambda>p. Some p) ?m ?w"
    by (simp add: run_ok_def demo_world_def default_flags_def demo_dir_def good_elem_def model_simps)
  have es: "dirs ?w (data_dir default_flags) = Some demo_dir"
    by (simp add: demo_world_def default_flags_def)
  have r: "fst (main default_flags (\<lambda>p. Some p) ?m ?w) = Inr ()"
    using main_run_ok [OF ok es subs] by simp
  have name: "submission_name (length [(''old.csv'', ''x'')]) (net default_flags) =
      ''1_submission_inception_resnet_v2.csv''"
    by code_simp
  have ne: "''old.csv'' \<noteq> ''1_submission_inception_resnet_v2.csv''" by simp
  have f: "let w' = snd (main default_flags (\<lambda>p. Some p) ?m ?w);
      name = ''1_submission_inception_resnet_v2.csv'' in
      (\<exists>subs'. submissions w' = Some subs' \<and> (\<forall>n. n \<noteq> name \<longrightarrow> map_of subs' n = map_of [(''old.csv'', ''x'')] n)) \<and>
      (fst (main default_flags (\<lambda>p. Some p) ?m ?w) = Inr () \<longrightarrow> name \<notin> set (open_files w'))"
    using main_frame [OF subs, of default_flags "\<lambda>p. Some p" ?m] unfolding name Let_def by blast
  show ?thesis using f r ne unfolding Let_def by fastforce
qed

end
