(* ===== verification/Prefetch.thy ===== *)
theory Prefetch
  imports Batching "HOL-Library.Sublist"
begin

text \<open>
  The concurrent input pipeline built at lines 63--66 of \<^verbatim>\<open>src/predict.py\<close>,
  \<open>dataset.map(_parse_function_test, num_parallel_calls=cpu_count())\<close>,
  \<open>.batch(FLAGS.batch_size)\<close> and \<open>.prefetch(FLAGS.batch_size)\<close>, and its
  consumer \<open>sess.run(get_next)\<close> (line 113).  It is a step relation
  \<open>pstep\<close> on a state holding the map stage (elements started, the ones still
  being transformed), the batch stage (elements already pulled in order, the
  partial batch) and the prefetch buffer, with one rule per event: a worker
  starts the next element, a worker finishes (in any order), the batcher pulls
  the next element in order, the batcher emits a batch into the buffer, the
  consumer takes a batch.  The lemmas show that in every interleaving the
  consumer receives exactly \<open>batch_list B (map f xs)\<close> in order (the
  sequential model of theory \<open>Batching\<close>), that the stages stay within their
  bounds, that every run terminates and that it only stops when all batches
  have been consumed.
\<close>

section \<open>Definitions\<close>

text \<open>The three sizes of lines 64--66: batch size, number of parallel
  calls (\<open>cpu_count()\<close>) and prefetch depth (\<open>FLAGS.batch_size\<close> batches).\<close>

record pconf =
  pc_batch :: nat
  pc_workers :: nat
  pc_depth :: nat

definition pconf_of :: "int \<Rightarrow> nat \<Rightarrow> pconf" where
  "pconf_of batch_size cpus =
     \<lparr>pc_batch = nat batch_size, pc_workers = cpus, pc_depth = nat batch_size\<rparr>"

text \<open>
  The pipeline's state.  Elements are numbered by their position in the input;
  \<open>started\<close> elements have been handed to a worker, those in \<open>inflight\<close> are
  still being transformed, \<open>assembled\<close> elements have been pulled by the
  batcher (the last ones in \<open>partial\<close>), \<open>buffer\<close> holds the prefetched
  batches and \<open>consumed\<close> the batches \<open>get_next\<close> has returned.
\<close>

record 'b pstate =
  started :: nat
  inflight :: "nat list"
  assembled :: nat
  partial :: "'b list"
  buffer :: "'b list list"
  consumed :: "'b list list"

definition init_pstate :: "'b pstate" where
  "init_pstate = \<lparr>started = 0, inflight = [], assembled = 0, partial = [], buffer = [], consumed = []\<rparr>"

text \<open>
  One event of the pipeline over the input \<open>xs\<close> with the per-element
  transform \<open>f\<close>.  The map stage holds at most \<open>pc_workers\<close> elements that the
  batcher has not pulled yet; the batcher pulls elements in input order once
  transformed; a batch is emitted when full or at the end of the input, if the
  buffer has room.
\<close>

inductive pstep :: "pconf \<Rightarrow> ('a \<Rightarrow> 'b) \<Rightarrow> 'a list \<Rightarrow> 'b pstate \<Rightarrow> 'b pstate \<Rightarrow> bool"
  for c :: pconf and f :: "'a \<Rightarrow> 'b" and xs :: "'a list" where
  dispatch: "started s < length xs \<Longrightarrow> started s - assembled s < pc_workers c \<Longrightarrow>
    pstep c f xs s (s\<lparr>started := Suc (started s), inflight := inflight s @ [started s]\<rparr>)"
| finish: "i \<in> set (inflight s) \<Longrightarrow>
    pstep c f xs s (s\<lparr>inflight := removeAll i (inflight s)\<rparr>)"
| pull: "assembled s < started s \<Longrightarrow> assembled s \<notin> set (inflight s) \<Longrightarrow>
    length (partial s) < pc_batch c \<Longrightarrow>
    pstep c f xs s (s\<lparr>assembled := Suc (assembled s), partial := partial s @ [f (xs ! assembled s)]\<rparr>)"
| emit: "partial s \<noteq> [] \<Longrightarrow> length (partial s) = pc_batch c \<or> assembled s = length xs \<Longrightarrow>
    length (buffer s) < pc_depth c \<Longrightarrow>
    pstep c f xs s (s\<lparr>buffer := buffer s @ [partial s], partial := []\<rparr>)"
| consume: "buffer s = b # bs \<Longrightarrow>
    pstep c f xs s (s\<lparr>buffer := bs, consumed := consumed s @ [b]\<rparr>)"

inductive preach :: "pconf \<Rightarrow> ('a \<Rightarrow> 'b) \<Rightarrow> 'a list \<Rightarrow> 'b pstate \<Rightarrow> bool"
  for c :: pconf and f :: "'a \<Rightarrow> 'b" and xs :: "'a list" where
  init: "preach c f xs init_pstate"
| step: "preach c f xs s \<Longrightarrow> pstep c f xs s s' \<Longrightarrow> preach c f xs s'"

text \<open>Elements emitted in batches so far (consumed or in the buffer).\<close>

definition emitted :: "'b pstate \<Rightarrow> nat" where
  "emitted s = assembled s - length (partial s)"

text \<open>The invariant of the pipeline.\<close>

definition pinv :: "pconf \<Rightarrow> ('a \<Rightarrow> 'b) \<Rightarrow> 'a list \<Rightarrow> 'b pstate \<Rightarrow> bool" where
  "pinv c f xs s \<longleftrightarrow>
     assembled s \<le> started s \<and> started s \<le> length xs \<and>
     started s - assembled s \<le> pc_workers c \<and>
     list_all (\<lambda>i. assembled s \<le> i \<and> i < started s) (inflight s) \<and> distinct (inflight s) \<and>
     length (partial s) \<le> assembled s \<and> length (partial s) \<le> pc_batch c \<and>
     partial s = map f (drop (emitted s) (take (assembled s) xs)) \<and>
     consumed s @ buffer s = batch_list (pc_batch c) (map f (take (emitted s) xs)) \<and>
     (pc_batch c dvd emitted s \<or> emitted s = length xs) \<and>
     length (buffer s) \<le> pc_depth c"

text \<open>
  The events of the pipeline as data, and an executable scheduler that applies
  a given sequence of them, refusing an event whose guard does not hold.  It
  runs concrete interleavings; \<open>pexec_iff\<close> shows it has exactly the steps of
  \<open>pstep\<close>.
\<close>

datatype pevent = Dispatch | Finish nat | Pull | Emit | Consume

fun pexec :: "pconf \<Rightarrow> ('a \<Rightarrow> 'b) \<Rightarrow> 'a list \<Rightarrow> pevent \<Rightarrow> 'b pstate \<Rightarrow> 'b pstate option" where
  "pexec c f xs Dispatch s =
     (if started s < length xs \<and> started s - assembled s < pc_workers c
      then Some (s\<lparr>started := Suc (started s), inflight := inflight s @ [started s]\<rparr>) else None)"
| "pexec c f xs (Finish i) s =
     (if i \<in> set (inflight s) then Some (s\<lparr>inflight := removeAll i (inflight s)\<rparr>) else None)"
| "pexec c f xs Pull s =
     (if assembled s < started s \<and> assembled s \<notin> set (inflight s) \<and> length (partial s) < pc_batch c
      then Some (s\<lparr>assembled := Suc (assembled s), partial := partial s @ [f (xs ! assembled s)]\<rparr>)
      else None)"
| "pexec c f xs Emit s =
     (if partial s \<noteq> [] \<and> (length (partial s) = pc_batch c \<or> assembled s = length xs) \<and>
         length (buffer s) < pc_depth c
      then Some (s\<lparr>buffer := buffer s @ [partial s], partial := []\<rparr>) else None)"
| "pexec c f xs Consume s =
     (case buffer s of [] \<Rightarrow> None | b # bs \<Rightarrow> Some (s\<lparr>buffer := bs, consumed := consumed s @ [b]\<rparr>))"

fun prun :: "pconf \<Rightarrow> ('a \<Rightarrow> 'b) \<Rightarrow> 'a list \<Rightarrow> pevent list \<Rightarrow> 'b pstate \<Rightarrow> 'b pstate option" where
  "prun c f xs [] s = Some s"
| "prun c f xs (e # es) s = (case pexec c f xs e s of None \<Rightarrow> None | Some s' \<Rightarrow> prun c f xs es s')"

text \<open>A variant that every event decreases: each element is started,
  finished and pulled once, each batch emitted and consumed once.\<close>

definition pmeasure :: "pconf \<Rightarrow> ('a \<Rightarrow> 'b) \<Rightarrow> 'a list \<Rightarrow> 'b pstate \<Rightarrow> nat" where
  "pmeasure c f xs s =
     (let n = length (batch_list (pc_batch c) (map f xs)) in
      2 * (length xs - started s) + length (inflight s) + (length xs - assembled s) +
      2 * (n - length (consumed s @ buffer s)) + (n - length (consumed s)))"

section \<open>Lemmas\<close>

inductive_cases pstep_cases: "pstep c f xs s s'"

lemmas pstate_defs [model_simps] = init_pstate_def pconf_of_def emitted_def pexec.simps prun.simps

lemma batch_list_append_dvd:
  "b dvd length as \<Longrightarrow> batch_list b (as @ bs) = batch_list b as @ batch_list b bs"
proof (induction b as rule: batch_list.induct)
  case (1 b as)
  show ?case
  proof (cases "b = 0 \<or> as = []")
    case True
    then show ?thesis by auto
  next
    case False
    then have b: "0 < b" and ne: "as \<noteq> []" by auto
    have "b \<le> length as" using "1.prems" ne by (simp add: dvd_imp_le)
    then have t: "take b (as @ bs) = take b as" and d: "drop b (as @ bs) = drop b as @ bs" by simp_all
    have "b dvd length (drop b as)" using "1.prems" \<open>b \<le> length as\<close> by (simp add: dvd_diff_nat)
    with "1.IH" False have "batch_list b (drop b as @ bs) = batch_list b (drop b as) @ batch_list b bs"
      by blast
    then show ?thesis using b ne t d by (simp add: batch_list_Cons)
  qed
qed

lemma batch_list_single:
  assumes "0 < length ys" and "length ys \<le> b"
  shows "batch_list b ys = [ys]"
proof -
  have b: "0 < b" using assms by linarith
  have ne: "ys \<noteq> []" using assms(1) by auto
  show ?thesis using b ne assms(2) by (simp add: batch_list_Cons)
qed

lemma pinv_init: "pinv c f xs init_pstate"
  by (simp add: pinv_def init_pstate_def emitted_def)

lemma pinv_facts:
  assumes "pinv c f xs s"
  shows "assembled s \<le> started s" and "started s \<le> length xs"
    and "started s - assembled s \<le> pc_workers c" and "length (partial s) \<le> assembled s"
    and "length (partial s) \<le> pc_batch c" and "length (buffer s) \<le> pc_depth c"
    and "consumed s @ buffer s = batch_list (pc_batch c) (map f (take (emitted s) xs))"
  using assms unfolding pinv_def by blast+

lemma pinv_dispatch:
  assumes "pinv c f xs s" "started s < length xs" "started s - assembled s < pc_workers c"
  shows "pinv c f xs (s\<lparr>started := Suc (started s), inflight := inflight s @ [started s]\<rparr>)"
  using assms by (auto simp: pinv_def emitted_def list_all_iff)

lemma pinv_finish:
  assumes "pinv c f xs s"
  shows "pinv c f xs (s\<lparr>inflight := removeAll i (inflight s)\<rparr>)"
  using assms by (auto simp: pinv_def emitted_def list_all_iff distinct_removeAll)

lemma pinv_pull:
  assumes inv: "pinv c f xs s" and lt: "assembled s < started s" and ni: "assembled s \<notin> set (inflight s)"
    and room: "length (partial s) < pc_batch c"
  shows "pinv c f xs (s\<lparr>assembled := Suc (assembled s), partial := partial s @ [f (xs ! assembled s)]\<rparr>)"
proof -
  let ?a = "assembled s" and ?E = "emitted s"
  have a: "?a < length xs" and E: "?E \<le> ?a" and lp: "length (partial s) \<le> ?a"
    using inv lt by (auto simp: pinv_def emitted_def)
  have E': "Suc ?a - length (partial s @ [f (xs ! ?a)]) = ?E" using lp by (simp add: emitted_def)
  have "drop ?E (take (Suc ?a) xs) = drop ?E (take ?a xs) @ [xs ! ?a]"
    using a E by (simp add: take_Suc_conv_app_nth)
  then have p': "partial s @ [f (xs ! ?a)] = map f (drop ?E (take (Suc ?a) xs))"
    using inv by (simp add: pinv_def)
  have il: "list_all (\<lambda>i. Suc ?a \<le> i \<and> i < started s) (inflight s)"
    using inv ni by (auto simp: pinv_def list_all_iff Suc_le_eq order.order_iff_strict)
  show ?thesis using inv lt room E' p' il by (auto simp: pinv_def emitted_def)
qed

lemma pinv_emit:
  assumes inv: "pinv c f xs s" and ne: "partial s \<noteq> []"
    and full: "length (partial s) = pc_batch c \<or> assembled s = length xs"
    and room: "length (buffer s) < pc_depth c"
  shows "pinv c f xs (s\<lparr>buffer := buffer s @ [partial s], partial := []\<rparr>)"
proof -
  let ?a = "assembled s" and ?E = "emitted s" and ?B = "pc_batch c" and ?p = "partial s"
  have a: "?a \<le> length xs" and lp: "length ?p \<le> ?a" and pB: "length ?p \<le> ?B"
    and p: "?p = map f (drop ?E (take ?a xs))"
    and cb: "consumed s @ buffer s = batch_list ?B (map f (take ?E xs))"
    and d: "?B dvd ?E \<or> ?E = length xs"
    using inv by (auto simp: pinv_def)
  have lp0: "0 < length ?p" using ne by simp
  have Ea: "?E < ?a" unfolding emitted_def using lp0 lp by arith
  then have dE: "?B dvd ?E" using d a by auto
  have split: "map f (take ?a xs) = map f (take ?E xs) @ ?p"
  proof -
    have "take ?a xs = take ?E (take ?a xs) @ drop ?E (take ?a xs)" by (rule append_take_drop_id [symmetric])
    also have "take ?E (take ?a xs) = take ?E xs" using Ea by (simp add: min_def)
    finally have t: "take ?a xs = take ?E xs @ drop ?E (take ?a xs)" .
    show ?thesis unfolding p using t by (metis map_append)
  qed
  have lE: "length (map f (take ?E xs)) = ?E" using Ea a by simp
  have "batch_list ?B (map f (take ?a xs)) = batch_list ?B (map f (take ?E xs)) @ [?p]"
    unfolding split
    using batch_list_append_dvd [of ?B "map f (take ?E xs)" ?p] dE lE
      batch_list_single [of ?p ?B] ne pB by simp
  then have cb': "consumed s @ buffer s @ [?p] = batch_list ?B (map f (take ?a xs))"
    using cb by simp
  have d': "?B dvd ?a \<or> ?a = length xs"
  proof (cases "length ?p = ?B")
    case True
    then have "?a = ?E + ?B" using lp by (simp add: emitted_def)
    then show ?thesis using dE by simp
  next
    case False
    then show ?thesis using full by simp
  qed
  show ?thesis using inv room cb' d' by (simp add: pinv_def emitted_def)
qed

lemma pinv_consume:
  assumes "pinv c f xs s" and "buffer s = b # bs"
  shows "pinv c f xs (s\<lparr>buffer := bs, consumed := consumed s @ [b]\<rparr>)"
  using assms by (simp add: pinv_def emitted_def)

lemma pinv_step: "pstep c f xs s s' \<Longrightarrow> pinv c f xs s \<Longrightarrow> pinv c f xs s'"
  by (induction rule: pstep.induct)
    (simp_all add: pinv_dispatch pinv_finish pinv_pull pinv_emit pinv_consume)

lemma preach_pinv: "preach c f xs s \<Longrightarrow> pinv c f xs s"
  by (induction rule: preach.induct) (simp_all add: pinv_init pinv_step)

lemma pexec_pstep: "pexec c f xs e s = Some s' \<Longrightarrow> pstep c f xs s s'"
  by (cases e) (auto split: if_splits list.splits intro: pstep.intros)

lemma pstep_pexec: "pstep c f xs s s' \<Longrightarrow> \<exists>e. pexec c f xs e s = Some s'"
proof (induction rule: pstep.induct)
  case (finish i s)
  then show ?case by (intro exI [of _ "Finish i"]) simp
next
  case (consume s b bs)
  then show ?case by (intro exI [of _ Consume]) simp
qed (auto intro: exI [of _ Dispatch] exI [of _ Pull] exI [of _ Emit])

lemma prun_preach: "prun c f xs es s = Some s' \<Longrightarrow> preach c f xs s \<Longrightarrow> preach c f xs s'"
proof (induction es arbitrary: s)
  case Nil
  then show ?case by simp
next
  case (Cons e es)
  obtain s1 where e: "pexec c f xs e s = Some s1" and r: "prun c f xs es s1 = Some s'"
    using Cons.prems(1) by (auto split: option.splits)
  have "preach c f xs s1" using preach.step [OF Cons.prems(2) pexec_pstep [OF e]] .
  then show ?case using Cons.IH [OF r] by simp
qed

text \<open>What the invariant says of the batches emitted so far.\<close>

lemma batch_list_take_prefix:
  assumes "b dvd n \<or> n = length ys" and "n \<le> length ys"
  shows "prefix (batch_list b (take n ys)) (batch_list b ys)"
proof (cases "n = length ys")
  case True
  then show ?thesis by simp
next
  case False
  then have "b dvd length (take n ys)" using assms by simp
  then have "batch_list b ys = batch_list b (take n ys) @ batch_list b (drop n ys)"
    using batch_list_append_dvd [of b "take n ys" "drop n ys"] by simp
  then show ?thesis by (simp add: prefixI)
qed

lemma pinv_prefix:
  assumes "pinv c f xs s"
  shows "prefix (consumed s @ buffer s) (batch_list (pc_batch c) (map f xs))"
proof -
  have "assembled s \<le> length xs" using assms by (simp add: pinv_def)
  then have e: "emitted s \<le> length xs" unfolding emitted_def by linarith
  have "prefix (batch_list (pc_batch c) (take (emitted s) (map f xs))) (batch_list (pc_batch c) (map f xs))"
    using assms e by (intro batch_list_take_prefix) (auto simp: pinv_def)
  then show ?thesis using assms by (simp add: pinv_def take_map)
qed

lemma length_inflight:
  assumes "pinv c f xs s"
  shows "length (inflight s) \<le> started s - assembled s"
proof -
  have "set (inflight s) \<subseteq> {assembled s..<started s}" and d: "distinct (inflight s)"
    using assms by (auto simp: pinv_def list_all_iff)
  then have "card (set (inflight s)) \<le> card {assembled s..<started s}" by (intro card_mono) simp_all
  then show ?thesis using d by (simp add: distinct_card)
qed

lemma pinv_emitted_length:
  "pinv c f xs s \<Longrightarrow> length (consumed s @ buffer s) \<le> length (batch_list (pc_batch c) (map f xs))"
  using pinv_prefix prefix_length_le by blast

lemma pmeasure_step: "pstep c f xs s s' \<Longrightarrow> pinv c f xs s \<Longrightarrow> pmeasure c f xs s' < pmeasure c f xs s"
proof (induction rule: pstep.induct)
  case (dispatch s)
  then show ?case by (simp add: pmeasure_def Let_def)
next
  case (finish i s)
  have "length (removeAll i (inflight s)) < length (inflight s)"
    using finish.hyps by (simp add: length_removeAll_less)
  then show ?case by (simp add: pmeasure_def Let_def)
next
  case (pull s)
  then have "assembled s < length xs" by (simp add: pinv_def)
  then show ?case by (simp add: pmeasure_def Let_def)
next
  case (emit s)
  then have "pinv c f xs (s\<lparr>buffer := buffer s @ [partial s], partial := []\<rparr>)" by (simp add: pinv_emit)
  then have "length (consumed s @ buffer s) < length (batch_list (pc_batch c) (map f xs))"
    using pinv_emitted_length by fastforce
  then show ?case by (simp add: pmeasure_def Let_def)
next
  case (consume s b bs)
  then have "pinv c f xs (s\<lparr>buffer := bs, consumed := consumed s @ [b]\<rparr>)" by (simp add: pinv_consume)
  then have "length (consumed s) < length (batch_list (pc_batch c) (map f xs))"
    using pinv_emitted_length by fastforce
  then show ?case using consume.hyps by (simp add: pmeasure_def Let_def)
qed

lemma pinv_progress:
  assumes inv: "pinv c f xs s" and pos: "0 < pc_batch c" "0 < pc_workers c" "0 < pc_depth c"
    and ne: "consumed s \<noteq> batch_list (pc_batch c) (map f xs)"
  shows "\<exists>s'. pstep c f xs s s'"
proof (cases "buffer s")
  case (Cons b bs)
  then show ?thesis using pstep.consume by blast
next
  case Nil
  note buf = this
  show ?thesis
  proof (cases "inflight s")
    case (Cons i rest)
    then show ?thesis using pstep.finish [of i s] by auto
  next
    case Nil
    note inf = this
    show ?thesis
    proof (cases "partial s \<noteq> [] \<and> (length (partial s) = pc_batch c \<or> assembled s = length xs)")
      case True
      then show ?thesis using pstep.emit [of s] buf pos(3) by auto
    next
      case False
      note nemit = this
      show ?thesis
      proof (cases "assembled s < started s")
        case True
        have "length (partial s) \<le> pc_batch c" using inv by (rule pinv_facts(5))
        then have "length (partial s) < pc_batch c" using nemit pos(1) by (cases "partial s = []") auto
        then show ?thesis using pstep.pull [of s] True inf by auto
      next
        case False
        then have eq: "assembled s = started s" using inv by (simp add: pinv_def)
        show ?thesis
        proof (cases "started s < length xs")
          case True
          then show ?thesis using pstep.dispatch [of s] eq pos(2) by auto
        next
          case False
          then have a: "assembled s = length xs" using eq inv by (simp add: pinv_def)
          then have "partial s = []" using nemit by auto
          then have "emitted s = length xs" using a by (simp add: emitted_def)
          then have "consumed s @ buffer s = batch_list (pc_batch c) (map f xs)"
            using inv unfolding pinv_def by simp
          then have "consumed s = batch_list (pc_batch c) (map f xs)" using buf by simp
          then show ?thesis using ne by simp
        qed
      qed
    qed
  qed
qed

lemma pipeline_reach_measure:
  assumes "preach c f xs s" and "pstep c f xs s s'"
  shows "preach c f xs s'" and "pmeasure c f xs s' < pmeasure c f xs s"
  using assms preach.step pmeasure_step preach_pinv by blast+


text \<open>C8: in every interleaving of the workers, the batcher, the prefetch buffer
  and the consumer, the batches handed out so far (consumed or buffered) are,
  in order, the first batches of \<open>batch_list B (map f xs)\<close>: parallel
  decoding never reorders elements nor changes a batch.\<close>

theorem pipeline_in_order:
  assumes "preach c f xs s"
  shows "prefix (consumed s @ buffer s) (batch_list (pc_batch c) (map f xs))"
  using pinv_prefix [OF preach_pinv [OF assms]] .


text \<open>C14: the pipeline cannot run forever: there is no infinite sequence of
  events from a reachable state.\<close>

theorem pipeline_terminates: "wf {(s', s). preach c f xs s \<and> pstep c f xs s s'}"
proof (rule wf_subset [OF wf_measure [of "pmeasure c f xs"]])
  show "{(s', s). preach c f xs s \<and> pstep c f xs s s'} \<subseteq> measure (pmeasure c f xs)"
    using pipeline_reach_measure(2) by auto
qed

text \<open>C13: with positive sizes, a run only stops when it has delivered every batch
  of \<open>batch_list B (map f xs)\<close> to the consumer and every stage is empty: the
  pipeline never deadlocks.\<close>

theorem pipeline_stops_complete:
  assumes pos: "0 < pc_batch c" "0 < pc_workers c" "0 < pc_depth c"
    and r: "preach c f xs s" and stuck: "\<forall>s'. \<not> pstep c f xs s s'"
  shows "consumed s = batch_list (pc_batch c) (map f xs) \<and> buffer s = [] \<and> partial s = [] \<and> inflight s = []"
proof -
  have inv: "pinv c f xs s" using r by (rule preach_pinv)
  have all: "consumed s = batch_list (pc_batch c) (map f xs)"
    using pinv_progress [OF inv pos] stuck by blast
  have "length (consumed s @ buffer s) \<le> length (consumed s)"
    using pinv_emitted_length [OF inv] all by simp
  then have buf: "buffer s = []" by simp
  have inf: "inflight s = []"
  proof (rule ccontr)
    assume "inflight s \<noteq> []"
    then obtain i where "i \<in> set (inflight s)" by (cases "inflight s") auto
    then show False using pstep.finish stuck by blast
  qed
  note cb = pinv_facts(7) [OF inv]
  have "batch_list (pc_batch c) (map f (take (emitted s) xs)) = batch_list (pc_batch c) (map f xs)"
    using cb all buf by simp
  then have "concat (batch_list (pc_batch c) (map f (take (emitted s) xs))) =
      concat (batch_list (pc_batch c) (map f xs))" by (rule arg_cong)
  then have "map f (take (emitted s) xs) = map f xs" by (simp only: concat_batch_list [OF pos(1)])
  then have "length (take (emitted s) xs) = length xs" by (metis length_map)
  then have "length xs \<le> emitted s" by simp
  moreover note pinv_facts(1,2,4) [OF inv]
  ultimately have "length (partial s) = 0" unfolding emitted_def by linarith
  then have "partial s = []" by simp
  then show ?thesis using all buf inf by simp
qed

text \<open>C15: with positive sizes, from every reachable state some continuation of
  the run delivers every batch to the consumer.\<close>

theorem pipeline_can_complete:
  assumes pos: "0 < pc_batch c" "0 < pc_workers c" "0 < pc_depth c" and r: "preach c f xs s"
  shows "\<exists>s'. (pstep c f xs)\<^sup>*\<^sup>* s s' \<and> consumed s' = batch_list (pc_batch c) (map f xs)"
  using r
proof (induction "pmeasure c f xs s" arbitrary: s rule: less_induct)
  case less
  show ?case
  proof (cases "consumed s = batch_list (pc_batch c) (map f xs)")
    case True
    then show ?thesis by (blast intro: rtranclp.rtrancl_refl)
  next
    case False
    obtain s1 where st: "pstep c f xs s s1" using pinv_progress [OF preach_pinv [OF less.prems] pos False] by blast
    note m = pipeline_reach_measure [OF less.prems st]
    obtain s' where "(pstep c f xs)\<^sup>*\<^sup>* s1 s'" and "consumed s' = batch_list (pc_batch c) (map f xs)"
      using less.hyps [OF m(2) m(1)] by blast
    then show ?thesis using st converse_rtranclp_into_rtranclp [of "pstep c f xs" s s1 s'] by blast
  qed
qed

theorem pipeline_in_order_witness:
  "preach \<lparr>pc_batch = 2, pc_workers = 2, pc_depth = 1\<rparr> (\<lambda>x :: nat. 10 * x) [2, 1, 3]
     \<lparr>started = 2, inflight = [], assembled = 2, partial = [], buffer = [], consumed = [[20, 10]]\<rparr> \<and>
   prefix [[20, 10 :: nat]] (batch_list 2 (map (\<lambda>x :: nat. 10 * x) [2, 1, 3]))"
proof -
  let ?c = "\<lparr>pc_batch = 2, pc_workers = 2, pc_depth = 1\<rparr> :: pconf"
  let ?f = "\<lambda>x :: nat. 10 * x"
  let ?s = "\<lparr>started = 2, inflight = [], assembled = 2, partial = [], buffer = [], consumed = [[20, 10]]\<rparr> :: nat pstate"
  have r: "prun ?c ?f [2, 1, 3] [Dispatch, Dispatch, Finish 1, Finish 0, Pull, Pull, Emit, Consume] init_pstate = Some ?s"
    by (simp add: pstate_defs)
  have p: "preach ?c ?f [2, 1, 3] ?s" using prun_preach [OF r preach.init] .
  with pipeline_in_order [OF p] show ?thesis by simp
qed


theorem pipeline_terminates_witness:
  "wf {(s', s). preach \<lparr>pc_batch = 2, pc_workers = 2, pc_depth = 1\<rparr> (\<lambda>x :: nat. 10 * x) [2, 1, 3] s \<and>
                pstep \<lparr>pc_batch = 2, pc_workers = 2, pc_depth = 1\<rparr> (\<lambda>x :: nat. 10 * x) [2, 1, 3] s s'}"
  by (rule pipeline_terminates)

theorem pipeline_stops_complete_witness:
  "preach \<lparr>pc_batch = 2, pc_workers = 2, pc_depth = 1\<rparr> (\<lambda>x :: nat. 10 * x) [2, 1, 3]
     \<lparr>started = 3, inflight = [], assembled = 3, partial = [], buffer = [], consumed = [[20, 10], [30]]\<rparr> \<and>
   [[20, 10], [30]] = batch_list 2 (map (\<lambda>x :: nat. 10 * x) [2, 1, 3])"
proof -
  let ?c = "\<lparr>pc_batch = 2, pc_workers = 2, pc_depth = 1\<rparr> :: pconf"
  let ?f = "\<lambda>x :: nat. 10 * x"
  let ?s = "\<lparr>started = 3, inflight = [], assembled = 3, partial = [], buffer = [], consumed = [[20, 10], [30]]\<rparr> :: nat pstate"
  have r: "prun ?c ?f [2, 1, 3]
      [Dispatch, Dispatch, Finish 0, Finish 1, Pull, Pull, Emit, Consume, Dispatch, Finish 2, Pull, Emit, Consume]
      init_pstate = Some ?s"
    by (simp add: pstate_defs)
  have p: "preach ?c ?f [2, 1, 3] ?s" using prun_preach [OF r preach.init] .
  have stuck: "\<forall>s'. \<not> pstep ?c ?f [2, 1, 3] ?s s'" by (auto elim: pstep.cases)
  have "consumed ?s = batch_list 2 (map ?f [2, 1, 3])"
    using pipeline_stops_complete [OF _ _ _ p stuck] by simp
  with p show ?thesis by simp
qed

theorem pipeline_can_complete_witness:
  "\<exists>s'. (pstep \<lparr>pc_batch = 2, pc_workers = 2, pc_depth = 1\<rparr> (\<lambda>x :: nat. 10 * x) [2, 1, 3])\<^sup>*\<^sup>* init_pstate s' \<and>
        consumed s' = [[20, 10], [30]]"
proof -
  have "batch_list 2 (map (\<lambda>x :: nat. 10 * x) [2, 1, 3]) = [[20, 10], [30]]" by (simp add: batch_list.simps)
  then show ?thesis
    using pipeline_can_complete [OF _ _ _ preach.init, of "\<lparr>pc_batch = 2, pc_workers = 2, pc_depth = 1\<rparr>"
        "\<lambda>x :: nat. 10 * x" "[2, 1, 3]"] by simp
qed

end
