(* ===== verification/Utf8.thy ===== *)
theory Utf8
  imports Prelude
begin

text \<open>
  The round trip every id makes through a string tensor in \<^verbatim>\<open>src/predict.py\<close>:
  \<open>tf.convert_to_tensor(fns, dtype=tf.string)\<close> (line 62) stores each Python
  \<open>str\<close> as its UTF-8 bytes (\<open>str.encode('utf-8')\<close>), and line 117 turns the
  bytes \<open>sess.run(get_next)\<close> returns back into text with
  \<open>fn.decode("utf-8")\<close>.  A Python string is a list of code points (\<open>nat\<close>);
  bytes are \<open>8 word\<close>s.  \<open>utf8_encode\<close> is Python's strict encoder (a
  surrogate code point raises), \<open>utf8_decode\<close> its strict decoder (every
  ill-formed sequence raises: overlong forms, surrogates, values above
  \<open>U+10FFFF\<close>, stray or missing continuation bytes).  The lemmas show that
  every string the encoder accepts comes back unchanged, in particular the ids
  of the model (strings of 8-bit characters).
\<close>

section \<open>Definitions\<close>

text \<open>The byte with a given value below 256.\<close>

definition byte_of :: "nat \<Rightarrow> byte" where
  "byte_of k = word_of_nat k"

definition is_surrogate :: "nat \<Rightarrow> bool" where
  "is_surrogate c \<longleftrightarrow> 0xD800 \<le> c \<and> c \<le> 0xDFFF"

text \<open>One code point: 1 to 4 bytes, lead byte then 6-bit continuation groups.\<close>

definition enc_char :: "nat \<Rightarrow> bytes result" where
  "enc_char c =
     (if c < 0x80 then Inr [byte_of c]
      else if c < 0x800 then Inr [byte_of (0xC0 + c div 64), byte_of (0x80 + c mod 64)]
      else if c < 0x10000 then
        (if is_surrogate c then Inl UnicodeEncodeError
         else Inr [byte_of (0xE0 + c div 4096), byte_of (0x80 + c div 64 mod 64), byte_of (0x80 + c mod 64)])
      else if c < 0x110000 then
        Inr [byte_of (0xF0 + c div 262144), byte_of (0x80 + c div 4096 mod 64),
             byte_of (0x80 + c div 64 mod 64), byte_of (0x80 + c mod 64)]
      else Inl UnicodeEncodeError)"

fun utf8_encode :: "nat list \<Rightarrow> bytes result" where
  "utf8_encode [] = Inr []"
| "utf8_encode (c # cs) =
     (case enc_char c of
        Inl e \<Rightarrow> Inl e
      | Inr b \<Rightarrow> (case utf8_encode cs of Inl e \<Rightarrow> Inl e | Inr r \<Rightarrow> Inr (b @ r)))"

definition is_cont :: "byte \<Rightarrow> bool" where
  "is_cont b \<longleftrightarrow> 0x80 \<le> unat b \<and> unat b < 0xC0"

definition cont_val :: "byte \<Rightarrow> nat" where
  "cont_val b = unat b - 0x80"

definition cons_r :: "'a \<Rightarrow> 'a list result \<Rightarrow> 'a list result" where
  "cons_r x r = (case r of Inl e \<Rightarrow> Inl e | Inr xs \<Rightarrow> Inr (x # xs))"

text \<open>
  The strict decoder: a lead byte fixes the length of the sequence, every
  following byte must be a continuation byte, and the value must be in the
  range of that length (no overlong form), not a surrogate and at most
  \<open>U+10FFFF\<close>.
\<close>

fun utf8_decode :: "bytes \<Rightarrow> nat list result" where
  "utf8_decode [] = Inr []"
| "utf8_decode (b # bs) =
     (let n = unat b in
      if n < 0x80 then cons_r n (utf8_decode bs)
      else if 0xC2 \<le> n \<and> n < 0xE0 then
        (case bs of
           c1 # r \<Rightarrow>
             if is_cont c1 then cons_r ((n - 0xC0) * 64 + cont_val c1) (utf8_decode r)
             else Inl UnicodeDecodeError
         | [] \<Rightarrow> Inl UnicodeDecodeError)
      else if 0xE0 \<le> n \<and> n < 0xF0 then
        (case bs of
           c1 # c2 # r \<Rightarrow>
             (let v = (n - 0xE0) * 4096 + cont_val c1 * 64 + cont_val c2 in
              if is_cont c1 \<and> is_cont c2 \<and> 0x800 \<le> v \<and> \<not> is_surrogate v
              then cons_r v (utf8_decode r) else Inl UnicodeDecodeError)
         | _ \<Rightarrow> Inl UnicodeDecodeError)
      else if 0xF0 \<le> n \<and> n < 0xF5 then
        (case bs of
           c1 # c2 # c3 # r \<Rightarrow>
             (let v = (n - 0xF0) * 262144 + cont_val c1 * 4096 + cont_val c2 * 64 + cont_val c3 in
              if is_cont c1 \<and> is_cont c2 \<and> is_cont c3 \<and> 0x10000 \<le> v \<and> v < 0x110000
              then cons_r v (utf8_decode r) else Inl UnicodeDecodeError)
         | _ \<Rightarrow> Inl UnicodeDecodeError)
      else Inl UnicodeDecodeError)"

text \<open>A Python string that the encoder accepts: code points below \<open>U+110000\<close>, no surrogates.\<close>

definition valid_str :: "nat list \<Rightarrow> bool" where
  "valid_str cs \<longleftrightarrow> list_all (\<lambda>c. c < 0x110000 \<and> \<not> is_surrogate c) cs"

section \<open>Lemmas\<close>

lemmas utf8_defs [model_simps] = byte_of_def is_surrogate_def enc_char_def is_cont_def cont_val_def cons_r_def

lemma unat_byte_of: "k < 256 \<Longrightarrow> unat (byte_of k) = k"
  by (simp add: byte_of_def unat_of_nat)

lemma cont_byte:
  assumes "k < 64"
  shows "is_cont (byte_of (0x80 + k)) \<and> cont_val (byte_of (0x80 + k)) = k"
proof -
  have u: "unat (byte_of (0x80 + k)) = 0x80 + k" using assms by (intro unat_byte_of) simp
  show ?thesis using assms unfolding is_cont_def cont_val_def u by simp
qed

lemma digits3: "(c::nat) div 4096 * 4096 + c div 64 mod 64 * 64 + c mod 64 = c"
proof -
  have e: "c div 64 div 64 = c div 4096" by (simp add: div_mult2_eq [symmetric])
  have a: "c div 64 = c div 4096 * 64 + c div 64 mod 64"
    using div_mult_mod_eq [of "c div 64" 64] e by simp
  have b: "c = c div 64 * 64 + c mod 64" by simp
  show ?thesis using a b by linarith
qed

lemma digits4:
  "(c::nat) div 262144 * 262144 + c div 4096 mod 64 * 4096 + c div 64 mod 64 * 64 + c mod 64 = c"
proof -
  have e: "c div 4096 div 64 = c div 262144" by (simp add: div_mult2_eq [symmetric])
  have a: "c div 4096 = c div 262144 * 64 + c div 4096 mod 64"
    using div_mult_mod_eq [of "c div 4096" 64] e by simp
  have b: "c div 4096 * 4096 + c div 64 mod 64 * 64 + c mod 64 = c" by (rule digits3)
  show ?thesis using a b by linarith
qed

lemma dec_enc_char:
  assumes enc: "enc_char c = Inr bs"
  shows "utf8_decode (bs @ rest) = cons_r c (utf8_decode rest)"
proof -
  consider (one) "c < 0x80" | (two) "0x80 \<le> c" "c < 0x800" | (three) "0x800 \<le> c" "c < 0x10000"
    | (four) "0x10000 \<le> c" "c < 0x110000" | (big) "0x110000 \<le> c" by linarith
  then show ?thesis
  proof cases
    case one
    then have "bs = [byte_of c]" using enc by (simp add: enc_char_def)
    moreover have "unat (byte_of c) = c" using one by (simp add: unat_byte_of)
    ultimately show ?thesis using one by simp
  next
    case two
    then have bs: "bs = [byte_of (0xC0 + c div 64), byte_of (0x80 + c mod 64)]"
      using enc by (simp add: enc_char_def)
    have lo: "2 \<le> c div 64" and hi: "c div 64 < 32" using two by (simp_all add: less_mult_imp_div_less le_div_geq)
    have n: "unat (byte_of (0xC0 + c div 64)) = 0xC0 + c div 64" using hi by (intro unat_byte_of) simp
    note c1 = cont_byte [of "c mod 64"]
    have v: "(0xC0 + c div 64 - 0xC0) * 64 + c mod 64 = c" by simp
    show ?thesis using lo hi c1 v unfolding bs by (simp add: n Let_def)
  next
    case three
    have ns: "\<not> is_surrogate c" using three enc by (auto simp: enc_char_def split: if_splits)
    then have bs: "bs = [byte_of (0xE0 + c div 4096), byte_of (0x80 + c div 64 mod 64), byte_of (0x80 + c mod 64)]"
      using three enc by (simp add: enc_char_def)
    have hi: "c div 4096 < 16" using three by (simp add: less_mult_imp_div_less)
    have n: "unat (byte_of (0xE0 + c div 4096)) = 0xE0 + c div 4096" using hi by (intro unat_byte_of) simp
    note c1 = cont_byte [of "c div 64 mod 64"] and c2 = cont_byte [of "c mod 64"]
    have v: "(0xE0 + c div 4096 - 0xE0) * 4096 + c div 64 mod 64 * 64 + c mod 64 = c"
      using digits3 [of c] by simp
    show ?thesis using hi c1 c2 v three ns unfolding bs by (simp add: n Let_def)
  next
    case four
    then have bs: "bs = [byte_of (0xF0 + c div 262144), byte_of (0x80 + c div 4096 mod 64),
                         byte_of (0x80 + c div 64 mod 64), byte_of (0x80 + c mod 64)]"
      using enc by (simp add: enc_char_def)
    have hi: "c div 262144 < 5" using four by (simp add: less_mult_imp_div_less)
    have n: "unat (byte_of (0xF0 + c div 262144)) = 0xF0 + c div 262144" using hi by (intro unat_byte_of) simp
    note c1 = cont_byte [of "c div 4096 mod 64"] and c2 = cont_byte [of "c div 64 mod 64"]
      and c3 = cont_byte [of "c mod 64"]
    have v: "(0xF0 + c div 262144 - 0xF0) * 262144 + c div 4096 mod 64 * 4096 + c div 64 mod 64 * 64 + c mod 64 = c"
      using digits4 [of c] by simp
    show ?thesis using hi c1 c2 c3 v four unfolding bs by (simp add: n Let_def)
  next
    case big
    then show ?thesis using enc by (simp add: enc_char_def)
  qed
qed

lemma enc_char_ok: "c < 0x110000 \<Longrightarrow> \<not> is_surrogate c \<Longrightarrow> \<exists>bs. enc_char c = Inr bs"
  by (simp add: enc_char_def)

text \<open>C30: every Python string the encoder accepts (no surrogate) survives the
  tensor: encoding it to UTF-8 and decoding the bytes gives it back.\<close>

theorem utf8_roundtrip:
  assumes "valid_str cs"
  shows "\<exists>bs. utf8_encode cs = Inr bs \<and> utf8_decode bs = Inr cs"
  using assms
proof (induction cs)
  case Nil
  then show ?case by simp
next
  case (Cons c cs)
  have v: "c < 0x110000" "\<not> is_surrogate c" and vs: "valid_str cs" using Cons.prems by (simp_all add: valid_str_def)
  obtain b where b: "enc_char c = Inr b" using enc_char_ok [OF v] by blast
  obtain r where r: "utf8_encode cs = Inr r" and d: "utf8_decode r = Inr cs" using Cons.IH [OF vs] by blast
  have "utf8_decode (b @ r) = Inr (c # cs)" using dec_enc_char [OF b] d by (simp add: cons_r_def)
  then show ?case using b r by simp
qed

text \<open>The ids of the model, strings of 8-bit characters, are always
  accepted by the encoder and come back unchanged from \<open>fn.decode("utf-8")\<close>:
  treating the tensor round trip of lines 62 and 117 as the identity, as the
  other theories do, is exact.\<close>

lemma id_tensor_roundtrip:
  "\<exists>bs. utf8_encode (map of_char s) = Inr bs \<and> utf8_decode bs = Inr (map of_char (s :: string))"
proof -
  have "\<And>c. (of_char c :: nat) < 0x110000 \<and> \<not> is_surrogate (of_char c)"
  proof -
    fix c :: char
    have b: "(of_char c :: nat) < 256" by simp
    then show "(of_char c :: nat) < 0x110000 \<and> \<not> is_surrogate (of_char c)"
      unfolding is_surrogate_def by linarith
  qed
  then have "valid_str (map of_char s)" by (simp add: valid_str_def list_all_iff)
  then show ?thesis using utf8_roundtrip by blast
qed

theorem utf8_roundtrip_witness:
  "utf8_encode [0x61, 0xE9, 0x20AC, 0x1F600] = Inr [0x61, 0xC3, 0xA9, 0xE2, 0x82, 0xAC, 0xF0, 0x9F, 0x98, 0x80] \<and>
   utf8_decode [0x61, 0xC3, 0xA9, 0xE2, 0x82, 0xAC, 0xF0, 0x9F, 0x98, 0x80] = Inr [0x61, 0xE9, 0x20AC, 0x1F600]"
proof -
  have v: "valid_str [0x61, 0xE9, 0x20AC, 0x1F600]" by (simp add: valid_str_def is_surrogate_def)
  have e: "utf8_encode [0x61, 0xE9, 0x20AC, 0x1F600] = Inr [0x61, 0xC3, 0xA9, 0xE2, 0x82, 0xAC, 0xF0, 0x9F, 0x98, 0x80]"
    by (simp add: enc_char_def byte_of_def is_surrogate_def)
  show ?thesis using utf8_roundtrip [OF v] e by auto
qed

end
