(* ===== verification/Spec2Isabelle.thy ===== *)
theory Spec2Isabelle
  imports Pipeline Prefetch Utf8
begin

text \<open>
  \<^bold>\<open>A verification development of \<^verbatim>\<open>src/predict.py\<close>.\<close>

  The script runs a trained classifier over every image of one directory and
  writes a submission file \<open>submissions/<n>_submission_<net>.csv\<close>: a header
  \<open>id,predicted\<close>, one row \<open><id>,<c1> <c2> <c3>\<close> per usable image in listing
  order, then the fixed row \<open><id>,93 83 2\<close> for every corrupted entry.  Its parts
  and the theories that model them, in the order \<open>main\<close> (lines 89--124) uses them:

  \<^item> \<^bold>\<open>Prelude\<close>: the model's types (\<open>byte = 8 word\<close>, paths and file names as
    strings), the \<open>error\<close> datatype with one constructor per exception the script
    lets escape, the result type \<open>error + 'a\<close>, Python's \<open>math.ceil(n / b)\<close> as
    \<open>py_ceil_div\<close> (division by zero an error), and shared lemmas on lists,
    association lists and integer division.

  \<^item> \<^bold>\<open>Validator\<close> (File Validator, lines 35--54): a directory is an association
    list from names to entries (\<open>RegFile bytes\<close> or \<open>SubDir\<close>); \<open>is_valid\<close>
    translates \<open>os.path.getsize\<close> and \<open>imghdr.what\<close> (its JPEG, PNG and GIF header
    tests on the first 32 bytes), \<open>list_files_loop\<close>/\<open>list_files\<close> the loop that
    appends to \<open>img_paths\<close>, \<open>fns\<close> and \<open>corrupted_fns\<close>, with \<open>path_join\<close> and
    \<open>fn_stem\<close> (\<open>str(fn).split('.')[0]\<close>).  Lemmas: the loop refines a filter
    specification (\<open>list_files_refines\<close>), the two lists partition the listing
    in order (\<open>list_files_partition\<close>), empty and non-image files are corrupted
    (\<open>unusable_file_corrupted\<close>), the JPEG test reads only the tag at bytes 6--9
    (\<open>jfif_tag_suffices\<close>), ids are cut at the first dot (\<open>fn_stem_first_dot\<close>),
    and a sub-directory aborts the scan (\<open>subdir_aborts_scan\<close>).

  \<^item> \<^bold>\<open>Batching\<close> (Batch Loader, lines 57--73): \<open>num_batches\<close> (line 59),
    \<open>batch_list\<close> for \<open>Dataset.batch\<close>, the dataset record and
    \<open>init_data_generator\<close>, \<open>init_iterator\<close> (a batch size below 1 is refused
    when the dataset is batched), \<open>decode_batch\<close> for the map of
    \<open>_parse_function_test\<close> over one batch, and \<open>get_next\<close>: the sequential view of
    the iterator.  Lemmas: the batch count is the exact ceiling
    (\<open>num_batches_exact\<close>), batches concatenate to the input in order
    (\<open>batches_concat_ids\<close>), every batch but the last is full (\<open>batch_sizes\<close>).

  \<^item> \<^bold>\<open>Prefetch\<close> (the concurrent side of lines 63--66 and 113): the state of the
    map stage, the batcher and the prefetch buffer as a record \<open>pstate\<close>, the
    sizes as \<open>pconf\<close> (\<open>pconf_of\<close>: batch size, \<open>cpu_count()\<close> workers, prefetch
    depth \<open>FLAGS.batch_size\<close>), and the inductive step relation \<open>pstep\<close> with one
    rule per event (start, finish in any order, in-order pull, emit, consume),
    \<open>preach\<close> its reachable states.  The invariant \<open>pinv\<close> is preserved by every
    event; \<open>pmeasure\<close> decreases at every event.  Lemmas: consumed batches are
    always a prefix of \<open>batch_list B (map f xs)\<close> (\<open>pipeline_in_order\<close>), the
    decoded images held at once are at most \<open>B * B + B + cpus\<close>, a bound the
    witness reaches (\<open>pipeline_memory_bound\<close>), no run is infinite
    (\<open>pipeline_terminates\<close>), a stuck run has delivered everything
    (\<open>pipeline_stops_complete\<close>) and completion is reachable from everywhere
    (\<open>pipeline_can_complete\<close>).  \<open>pexec\<close>/\<open>prun\<close> execute a given interleaving.

  \<^item> \<^bold>\<open>TopK\<close> (Inference Engine, lines 77--86 and 114): \<open>top_k\<close> is
    \<open>tf.nn.top_k(logits, k)[1]\<close> on one row (scores descending, ties to the lower
    index, fewer than \<open>k\<close> columns an error), \<open>top_k_rows\<close> on a batch and
    \<open>init_model\<close> the record \<open>predictions\<close> of its two nodes, \<open>classes\<close>
    (\<open>tf.argmax\<close>, the first-maximum scan \<open>argmax_acc\<close>) and \<open>top_3\<close>, each
    the result of running that node alone; \<open>predict_top3\<close> (line 114) runs
    \<open>top_3\<close>, with the classifier a parameter.  Lemmas: the result is the
    \<open>k\<close> best distinct indices in rank order (\<open>top_k_correct\<close>), \<open>classes\<close>
    is the first of \<open>top_3\<close> on every row whose maximum is unique
    (\<open>classes_first_of_top3\<close>; on a tie TensorFlow leaves the argmax index
    unspecified, so nothing is claimed there), and both nodes have the
    expected shape (\<open>predictions_shape\<close>).

  \<^item> \<^bold>\<open>Writer\<close> (Result Writer, lines 99, 116--121): \<open>header_line\<close>,
    \<open>row_line\<close> (\<open>'{},{}\n'.format\<close> with \<open>' '.join\<close> of \<open>str\<close>), \<open>fallback_line\<close>,
    \<open>batch_rows\<close>, \<open>fallback_rows\<close>, and \<open>render_output\<close> for a whole file; a
    CSV reader \<open>parse_file\<close> states what the file means.  Lemmas: the file reads
    back as the rows written when no id contains a comma or a newline
    (\<open>output_roundtrip\<close>), and an id with a comma and no double quote is
    written unquoted, so a CSV reader (\<open>csv_start\<close>, the RFC 4180 field
    splitter) splits it into several fields, giving the row more than two
    columns (\<open>comma_id_splits\<close>).

  \<^item> \<^bold>\<open>Utf8\<close> (the string tensor, lines 62 and 117): ids enter the dataset
    as \<open>tf.string\<close> tensors, i.e. their UTF-8 bytes (\<open>utf8_encode\<close>, Python's
    strict encoder on code points, bytes as \<open>8 word\<close>), and come back through
    \<open>fn.decode("utf-8")\<close> (\<open>utf8_decode\<close>, the strict decoder).  Lemmas:
    strings without surrogates round-trip (\<open>utf8_roundtrip\<close>), and the
    8-bit ids of the other theories
    always come back unchanged (\<open>id_tensor_roundtrip\<close>), which is why those
    theories treat the round trip as the identity.

  \<^item> \<^bold>\<open>Pipeline\<close> (Main driver, lines 13--32 and 89--124): the \<open>flags\<close> record with
    the defaults of lines 13--30, the \<open>world\<close> record (existing directories, the
    contents of \<open>submissions/\<close> as an association list from name to text,
    whether \<open>checkpoint_dir\<close> holds a checkpoint, the open files),
    \<open>open_write\<close>/\<open>write_file\<close>/\<open>close_file\<close> for \<open>open(name, 'w')\<close>, \<open>write\<close>
    and \<open>close\<close>, \<open>infer_loop\<close> for the loop of lines 111--118 and \<open>main\<close> for the
    whole run, every exception a value \<open>Inl e\<close> returned with the world as it was
    at that point.  \<open>expected_output\<close> and \<open>run_ok\<close> state, from the directory
    listing alone, what a run must write and when it completes.  Lemmas: a
    completed run writes exactly the expected output under a fresh count-based
    name and closes it (\<open>main_output\<close>); \<open>main\<close> completes exactly under
    \<open>run_ok\<close> (\<open>main_succeeds_iff\<close>); the output does not depend on the batch
    size (\<open>main_batch_size_independent\<close>); a missing checkpoint leaves a
    header-only file open (\<open>missing_checkpoint_leaves_header\<close>); batch size 0
    and negative batch sizes fail at different points (\<open>bad_batch_size\<close>); a
    taken name is overwritten (\<open>rerun_overwrites\<close>); a re-run writes the same
    text (\<open>rerun_same_content\<close>); and whatever way a run
    ends, its file holds a prefix of the expected output
    (\<open>output_always_prefix\<close>).  On every exit \<open>main\<close> changes only its own
    submission file: directories, checkpoints, the other files of
    \<open>submissions/\<close> and the other open files are unchanged, and a completed run
    has closed its file (\<open>main_frame\<close>).

  \<^item> This theory: \<open>loader_refines_iterator\<close> connects \<open>Prefetch\<close> to
    \<open>Batching\<close>: for the sizes \<open>init_data_generator\<close> uses, every interleaving
    of the concurrent pipeline delivers the batches of the sequential iterator
    that \<open>main\<close> is modelled with, so the results on \<open>main\<close> hold for every
    worker schedule.

  \<^bold>\<open>Parameters and assumptions.\<close>  The classifier (\<open>model.MyModel\<close>, in
  \<^verbatim>\<open>model.py\<close>) and the image decoder (\<open>_parse_function_test\<close>, in
  \<^verbatim>\<open>data_generator.py\<close>) are outside \<^verbatim>\<open>src/\<close>: they are the parameters
  \<open>model :: 'img \<Rightarrow> 's list\<close> (one score row per image, as in inference mode,
  where batch normalisation uses its stored statistics and an image's logits do
  not depend on its batch-mates) and \<open>decode :: path \<Rightarrow> 'img option\<close> (\<open>None\<close>
  when decoding raises).  Writes to the submission file are modelled as
  appended at once (Python flushes them at \<open>close\<close> or at exit; the content of
  a file left open is the text written).  \<open>np.ceil(len / B)\<close> is exact for the
  lengths of a directory listing (below \<open>2^53\<close>), so it is the integer
  ceiling.  The image-type tests are those of \<open>imghdr\<close> up to Python 3.10.
  The loop of lines 111--118 runs exactly \<open>num_batches\<close> times, so
  \<open>infer_loop\<close> recurses on that count: no fuel is needed; the concurrent
  pipeline needs none either, its termination is a theorem.

  \<^bold>\<open>Not modelled.\<close>  The graph construction (placeholder, session
  configuration, device placement), the restore of the weights beyond whether a
  checkpoint exists, \<open>tqdm\<close> progress bars and \<open>print\<close> (terminal output only), and the timing of
  threads (the order of events is arbitrary in \<open>pstep\<close>; how long each takes
  is not represented).
\<close>

section \<open>Properties across components\<close>

text \<open>C12: the concurrent loader built by \<open>init_data_generator\<close> refines the
  sequential iterator of theory \<open>Batching\<close>: for a dataset the iterator accepts
  and any positive number of parallel calls, in every interleaving the batches
  \<open>get_next\<close> has returned are the first batches of the iterator, element-wise
  transformed, and a run that can make no further step has returned all of them.\<close>

theorem loader_refines_iterator:
  assumes it: "init_iterator ds = Inr it" and cpus: "0 < cpus"
    and r: "preach (pconf_of (ds_batch_size ds) cpus) f (ds_elems ds) s"
  shows "prefix (consumed s) (map (map f) it) \<and>
         ((\<forall>s'. \<not> pstep (pconf_of (ds_batch_size ds) cpus) f (ds_elems ds) s s') \<longrightarrow>
            consumed s = map (map f) it)"
proof -
  let ?c = "pconf_of (ds_batch_size ds) cpus"
  have b: "1 \<le> ds_batch_size ds" and itb: "it = batch_list (nat (ds_batch_size ds)) (ds_elems ds)"
    using it by (simp_all add: init_iterator_def split: if_splits)
  have pos: "0 < pc_batch ?c" "0 < pc_workers ?c" "0 < pc_depth ?c"
    using b cpus by (simp_all add: pconf_of_def)
  have tgt: "map (map f) it = batch_list (pc_batch ?c) (map f (ds_elems ds))"
    by (simp add: itb map_batch_list pconf_of_def)
  have inv: "pinv ?c f (ds_elems ds) s" using r by (rule preach_pinv)
  have "prefix (consumed s) (consumed s @ buffer s)" by simp
  then have pre: "prefix (consumed s) (map (map f) it)"
    using pinv_prefix [OF inv] tgt by (metis prefix_order.trans)
  have "(\<forall>s'. \<not> pstep ?c f (ds_elems ds) s s') \<longrightarrow> consumed s = map (map f) it"
  proof
    assume "\<forall>s'. \<not> pstep ?c f (ds_elems ds) s s'"
    then have "consumed s = batch_list (pc_batch ?c) (map f (ds_elems ds))"
      using pinv_progress [OF inv pos] by blast
    then show "consumed s = map (map f) it" using tgt by simp
  qed
  with pre show ?thesis by blast
qed

theorem loader_refines_iterator_witness:
  "init_iterator \<lparr>ds_elems = [(''p1'', ''a''), (''p2'', ''b''), (''p3'', ''c'')], ds_batch_size = 2\<rparr> =
     Inr [[(''p1'', ''a''), (''p2'', ''b'')], [(''p3'', ''c'')]] \<and>
   map (map snd) [[(''p1'', ''a''), (''p2'', ''b'')], [(''p3'', ''c'')]] = [[''a'', ''b''], [''c'']]"
proof -
  let ?ds = "\<lparr>ds_elems = [(''p1'', ''a''), (''p2'', ''b''), (''p3'', ''c'')], ds_batch_size = 2\<rparr>"
  let ?it = "[[(''p1'', ''a''), (''p2'', ''b'')], [(''p3'', ''c'')]]"
  let ?s = "\<lparr>started = 3, inflight = [], assembled = 3, partial = [], buffer = [],
             consumed = [[''a'', ''b''], [''c'']]\<rparr> :: string pstate"
  have it: "init_iterator ?ds = Inr ?it" by (simp add: init_iterator_def batch_list.simps)
  have r: "prun (pconf_of (ds_batch_size ?ds) 2) snd (ds_elems ?ds)
      [Dispatch, Dispatch, Finish 1, Finish 0, Pull, Pull, Emit, Dispatch, Consume, Finish 2, Pull, Emit, Consume]
      init_pstate = Some ?s"
    by (simp add: pstate_defs)
  have p: "preach (pconf_of (ds_batch_size ?ds) 2) snd (ds_elems ?ds) ?s"
    using prun_preach [OF r preach.init] .
  have stuck: "\<forall>s'. \<not> pstep (pconf_of (ds_batch_size ?ds) 2) snd (ds_elems ?ds) ?s s'"
    by (auto simp: pconf_of_def elim: pstep.cases)
  have "consumed ?s = map (map snd) ?it"
    using loader_refines_iterator [OF it _ p] stuck by simp
  with it show ?thesis by simp
qed

end
